theory Spec2Isabelle
  imports Complex_Main
begin

section \<open>Numbers, errors and randomness\<close>

text \<open>
  A JavaScript \<open>number\<close> is a binary64 floating-point number. It is modelled as the
  \<^typ>\<open>real\<close> it denotes, and the result of an arithmetic operation is rounded to the
  nearest number with 53 significant bits, ties to even (\<open>fl64\<close>): IEEE 754 binary64
  without its exponent limits (no overflow, no subnormal numbers), which the magnitudes
  of this program never reach. \<open>binade n x\<close> is the exponent \<open>e\<close> with
  \<open>2^e \<le> x < 2^(e+1)\<close>, found in at most \<open>n\<close> halvings or doublings.
\<close>

fun binade :: "nat \<Rightarrow> real \<Rightarrow> int" where
  "binade 0 x = 0"
| "binade (Suc n) x =
     (if x < 1 then binade n (2 * x) - 1 else if 2 \<le> x then binade n (x / 2) + 1 else 0)"

definition round_half_even :: "real \<Rightarrow> int" where
  "round_half_even q =
     (let f = \<lfloor>q\<rfloor>; d = q - real_of_int f
      in if d < 1 / 2 then f else if 1 / 2 < d then f + 1 else if even f then f else f + 1)"

definition ulp_inverse :: "int \<Rightarrow> real" where
  "ulp_inverse e = (if e \<le> 52 then 2 ^ nat (52 - e) else 1 / 2 ^ nat (e - 52))"

definition fl64 :: "real \<Rightarrow> real" where
  "fl64 x =
     (if x = 0 then 0
      else (let s = ulp_inverse (binade 1100 \<bar>x\<bar>)
            in sgn x * real_of_int (round_half_even (\<bar>x\<bar> * s)) / s))"

text \<open>
  Where the rounding is written and where it is not. Every sum, difference and
  product of the vertical motion (velocity, \<open>y\<close>, the tests against the ground, the
  ceiling and the gap of a pipe), of the pipe collision test, of the mutation and
  initialisation of a network, of the height of a new pipe and of the spawn point is
  rounded, and a decimal literal such as \<open>0.6\<close> is the binary64 number nearest to it.
  Two kinds of arithmetic are written without rounding:

  \<^item> the sums on whole numbers: \<open>distance\<close> and \<open>fitness\<close>, which grow by 3 and by
    multiples of 5000 from 0, and the \<open>x\<close> of a pipe, which goes down by 3 from 400,
    with the comparisons of the target search and of the pipe loop against them.
    Binary64 is exact on the integers below \<open>2^53\<close> (lemma \<open>fl64_int\<close>), and on the
    bird's \<open>x + BIRD_RADIUS\<close> and \<open>x - BIRD_RADIUS\<close> (lemma \<open>spawn_x_exact\<close>);

  \<^item> the forward pass of the network (\<open>sense\<close>, \<open>predict\<close>, \<open>sigmoid\<close>): the
    language does not fix how \<open>Math.exp\<close> rounds.

  The value \<open>NaN\<close>, which the program can only obtain by reading a missing array
  element, is \<open>None\<close> of \<^typ>\<open>real option\<close> in the one function that can read out of
  range (\<open>predict\<close>).

  A thrown exception is a value \<open>Inl e\<close> of a sum type.
\<close>

datatype error = TypeError | RangeError | SyntaxError

text \<open>
  \<open>Math.random()\<close> reads the next element of an infinite sequence of numbers; the
  sequence that remains is passed on.
\<close>

type_synonym rng = "nat \<Rightarrow> real"

definition random :: "rng \<Rightarrow> real \<times> rng" where
  "random r = (r 0, (\<lambda>n. r (Suc n)))"

text \<open>\<open>later r r'\<close>: the sequence \<open>r'\<close> is what remains of \<open>r\<close> after some draws.\<close>

definition later :: "rng \<Rightarrow> rng \<Rightarrow> bool" where
  "later r r' \<longleftrightarrow> (\<exists>m. r' = (\<lambda>n. r (m + n)))"

section \<open>Configuration (gameConfig.ts)\<close>

definition GRAVITY :: real where "GRAVITY = fl64 0.6"
definition JUMP_STRENGTH :: real where "JUMP_STRENGTH = - 8"
definition PIPE_SPEED :: real where "PIPE_SPEED = 3"
definition PIPE_SPAWN_RATE :: nat where "PIPE_SPAWN_RATE = 100"
definition PIPE_WIDTH :: real where "PIPE_WIDTH = 52"
definition PIPE_GAP :: real where "PIPE_GAP = 150"
definition BIRD_RADIUS :: real where "BIRD_RADIUS = 16"
definition GROUND_HEIGHT :: real where "GROUND_HEIGHT = 100"
definition CANVAS_WIDTH :: real where "CANVAS_WIDTH = 400"
definition CANVAS_HEIGHT :: real where "CANVAS_HEIGHT = 600"
definition AI_POPULATION :: nat where "AI_POPULATION = 50"
definition AI_MUTATION_RATE :: real where "AI_MUTATION_RATE = fl64 0.1"

section \<open>The neural network (class NeuralNetwork)\<close>

record NeuralNetwork =
  inputNodes :: nat
  hiddenNodes :: nat
  outputNodes :: nat
  weightsIH :: "real list list"
  weightsHO :: "real list list"
  biasH :: "real list"
  biasO :: "real list"

text \<open>
  \<open>Array(n).fill(0).map(() => Math.random() * 2 - 1)\<close>: \<open>n\<close> draws, in index order.
\<close>


fun random_row :: "nat \<Rightarrow> rng \<Rightarrow> real list \<times> rng" where
  "random_row 0 r = ([], r)"
| "random_row (Suc n) r =
     (let (u, r1) = random r; (us, r2) = random_row n r1 in (fl64 (fl64 (u * 2) - 1) # us, r2))"

fun random_rows :: "nat \<Rightarrow> nat \<Rightarrow> rng \<Rightarrow> real list list \<times> rng" where
  "random_rows 0 m r = ([], r)"
| "random_rows (Suc n) m r =
     (let (row, r1) = random_row m r; (rows, r2) = random_rows n m r1 in (row # rows, r2))"

text \<open>The constructor: the four arrays are filled in the order of the source.\<close>

definition new_NeuralNetwork :: "nat \<Rightarrow> nat \<Rightarrow> nat \<Rightarrow> rng \<Rightarrow> NeuralNetwork \<times> rng" where
  "new_NeuralNetwork i h o' r =
     (let (wih, r1) = random_rows i h r;
          (who, r2) = random_rows h o' r1;
          (bh, r3) = random_row h r2;
          (bo, r4) = random_row o' r3
      in (\<lparr>inputNodes = i, hiddenNodes = h, outputNodes = o',
           weightsIH = wih, weightsHO = who, biasH = bh, biasO = bo\<rparr>, r4))"

definition sigmoid :: "real \<Rightarrow> real" where
  "sigmoid x = 1 / (1 + exp (- x))"

text \<open>
  Reading an array of numbers out of range gives \<open>undefined\<close>, which arithmetic turns
  into \<open>NaN\<close> (\<open>None\<close>); reading an element of a missing row throws a TypeError.
\<close>

definition num_at :: "real list \<Rightarrow> nat \<Rightarrow> real option" where
  "num_at xs i = (if i < length xs then Some (xs ! i) else None)"

definition weight_at :: "real list list \<Rightarrow> nat \<Rightarrow> nat \<Rightarrow> error + real option" where
  "weight_at w i j = (if i < length w then Inr (num_at (w ! i) j) else Inl TypeError)"

definition num_add :: "real option \<Rightarrow> real option \<Rightarrow> real option" where
  "num_add a b = (case (a, b) of (Some x, Some y) \<Rightarrow> Some (x + y) | _ \<Rightarrow> None)"

definition num_mul :: "real option \<Rightarrow> real option \<Rightarrow> real option" where
  "num_mul a b = (case (a, b) of (Some x, Some y) \<Rightarrow> Some (x * y) | _ \<Rightarrow> None)"

text \<open>
  The inner loop \<open>for (i = 0; i < n; i++) sum += ins[i] * w[i][j]\<close>, over the
  indices that remain.
\<close>

fun weighted_sum ::
  "real option list \<Rightarrow> real list list \<Rightarrow> nat \<Rightarrow> nat list \<Rightarrow> real option \<Rightarrow> error + real option" where
  "weighted_sum ins w j [] s = Inr s"
| "weighted_sum ins w j (i # is) s =
     (case weight_at w i j of
        Inl e \<Rightarrow> Inl e
      | Inr x \<Rightarrow>
          weighted_sum ins w j is
            (num_add s (num_mul (if i < length ins then ins ! i else None) x)))"

text \<open>
  One layer: the outer loop over the \<open>m\<close> nodes of the layer, each the sigmoid of
  the weighted sum over the \<open>n\<close> nodes before it plus its bias.
\<close>

fun layer ::
  "real option list \<Rightarrow> real list list \<Rightarrow> real list \<Rightarrow> nat \<Rightarrow> nat list \<Rightarrow> error + real option list" where
  "layer ins w b n [] = Inr []"
| "layer ins w b n (j # js) =
     (case weighted_sum ins w j [0..<n] (Some 0) of
        Inl e \<Rightarrow> Inl e
      | Inr s \<Rightarrow>
          (case layer ins w b n js of
             Inl e \<Rightarrow> Inl e
           | Inr outs \<Rightarrow> Inr (map_option sigmoid (num_add s (num_at b j)) # outs)))"

definition predict :: "NeuralNetwork \<Rightarrow> real list \<Rightarrow> error + real option list" where
  "predict nn inputs =
     (case layer (map Some inputs) (weightsIH nn) (biasH nn) (inputNodes nn)
             [0..<hiddenNodes nn] of
        Inl e \<Rightarrow> Inl e
      | Inr hidden \<Rightarrow>
          layer hidden (weightsHO nn) (biasO nn) (hiddenNodes nn) [0..<outputNodes nn])"

text \<open>
  \<open>copy\<close> builds a network with the constructor (which draws its random numbers)
  and overwrites the four arrays with copies.
\<close>

definition copy :: "NeuralNetwork \<Rightarrow> rng \<Rightarrow> NeuralNetwork \<times> rng" where
  "copy this r =
     (let (nn, r1) = new_NeuralNetwork (inputNodes this) (hiddenNodes this) (outputNodes this) r
      in (nn\<lparr>weightsIH := map (\<lambda>row. row) (weightsIH this),
              weightsHO := map (\<lambda>row. row) (weightsHO this),
              biasH := biasH this, biasO := biasO this\<rparr>, r1))"

text \<open>
  \<open>mutateValue\<close>: one draw against the rate and, when it is below the rate, a second
  against 0.05 and a third for the size of the change: \<open>val + (u * 1.0 - 0.5)\<close> (large) or
  \<open>val + (u * 0.2 - 0.1)\<close> (small).
\<close>

definition large_step :: "real \<Rightarrow> real" where
  "large_step u = fl64 (fl64 (u * 1.0) - 0.5)"

definition small_step :: "real \<Rightarrow> real" where
  "small_step u = fl64 (fl64 (u * fl64 0.2) - fl64 0.1)"

definition mutateValue :: "real \<Rightarrow> real \<Rightarrow> rng \<Rightarrow> real \<times> rng" where
  "mutateValue rate val r =
     (let (u1, r1) = random r in
      if u1 < rate then
        (let (u2, r2) = random r1 in
         if u2 < fl64 0.05 then (let (u3, r3) = random r2 in (fl64 (val + large_step u3), r3))
         else (let (u3, r3) = random r2 in (fl64 (val + small_step u3), r3)))
      else (val, r1))"

fun mutate_row :: "real \<Rightarrow> real list \<Rightarrow> rng \<Rightarrow> real list \<times> rng" where
  "mutate_row rate [] r = ([], r)"
| "mutate_row rate (v # vs) r =
     (let (v', r1) = mutateValue rate v r; (vs', r2) = mutate_row rate vs r1 in (v' # vs', r2))"

fun mutate_rows :: "real \<Rightarrow> real list list \<Rightarrow> rng \<Rightarrow> real list list \<times> rng" where
  "mutate_rows rate [] r = ([], r)"
| "mutate_rows rate (row # rows) r =
     (let (row', r1) = mutate_row rate row r; (rows', r2) = mutate_rows rate rows r1
      in (row' # rows', r2))"

definition mutate :: "real \<Rightarrow> NeuralNetwork \<Rightarrow> rng \<Rightarrow> NeuralNetwork \<times> rng" where
  "mutate rate this r =
     (let (wih, r1) = mutate_rows rate (weightsIH this) r;
          (who, r2) = mutate_rows rate (weightsHO this) r1;
          (bh, r3) = mutate_row rate (biasH this) r2;
          (bo, r4) = mutate_row rate (biasO this) r3
      in (this\<lparr>weightsIH := wih, weightsHO := who, biasH := bh, biasO := bo\<rparr>, r4))"

text \<open>
  \<open>toJSON\<close> returns a plain object with the seven fields; \<open>fromJSON\<close>, on an object
  of that shape, builds a network with the constructor and overwrites the four arrays.
\<close>

record NNData =
  d_inputNodes :: nat
  d_hiddenNodes :: nat
  d_outputNodes :: nat
  d_weightsIH :: "real list list"
  d_weightsHO :: "real list list"
  d_biasH :: "real list"
  d_biasO :: "real list"

definition toJSON :: "NeuralNetwork \<Rightarrow> NNData" where
  "toJSON this =
     \<lparr>d_inputNodes = inputNodes this, d_hiddenNodes = hiddenNodes this,
      d_outputNodes = outputNodes this, d_weightsIH = weightsIH this,
      d_weightsHO = weightsHO this, d_biasH = biasH this, d_biasO = biasO this\<rparr>"

definition fromJSON :: "NNData \<Rightarrow> rng \<Rightarrow> NeuralNetwork \<times> rng" where
  "fromJSON data r =
     (let (nn, r1) = new_NeuralNetwork (d_inputNodes data) (d_hiddenNodes data) (d_outputNodes data) r
      in (nn\<lparr>weightsIH := d_weightsIH data, weightsHO := d_weightsHO data,
              biasH := d_biasH data, biasO := d_biasO data\<rparr>, r1))"

section \<open>The game state (component Game)\<close>

datatype GameMode = PLAYER | AI

datatype GameState = READY | PLAYING | GAME_OVER

text \<open>
  A colour is one of the string literals of the source or the template string
  \<open>hsla(${Math.random() * 360}, 70%, 50%, 0.6)\<close>, kept with its hue.
\<close>

datatype color = Hex string | Hsla real

record Pipe =
  pipe_x :: real
  topHeight :: real
  passed :: bool

record 'b AIBird =
  bird_x :: real
  bird_y :: real
  velocity :: real
  rotation :: real
  brain :: 'b
  fitness :: real
  score :: nat
  distance :: real
  alive :: bool
  color :: color

type_synonym bird = "NeuralNetwork AIBird"

text \<open>
  The refs of the component (\<open>birdsRef\<close>, \<open>pipesRef\<close>, \<open>lastPipeSpawnRef\<close>,
  \<open>scoreRef\<close>, \<open>savedBrainsRef\<close>), the React state that \<open>update\<close> and its callees
  set, what was last written to the two entries of \<open>localStorage\<close>, and the random
  sequence. The mode and the autopilot flag, which \<open>update\<close> only reads, are its
  parameters.
\<close>

record game =
  birds :: "bird list"
  pipes :: "Pipe list"
  lastPipeSpawn :: nat
  scoreRef :: nat
  savedBrains :: "NeuralNetwork list"
  gameState :: GameState
  score_ui :: nat
  highScore :: nat
  generation :: nat
  aliveCount :: nat
  bestScore :: nat
  stored_model :: "NNData option"
  stored_highscore :: "nat option"
  rand :: rng

subsection \<open>Creating birds\<close>

definition spawn_bird :: "'b \<Rightarrow> color \<Rightarrow> 'b AIBird" where
  "spawn_bird b c =
     \<lparr>bird_x = fl64 (CANVAS_WIDTH / 3), bird_y = fl64 (CANVAS_HEIGHT / 2), velocity = 0, rotation = 0,
      brain = b, fitness = 0, score = 0, distance = 0, alive = True, color = c\<rparr>"

text \<open>
  One iteration of the loop of \<open>createAIBirds\<close>, for index \<open>i\<close>: the colour is drawn
  first; with parents, the parent is \<open>bestBrains[i % bestBrains.length]\<close>, copied,
  and mutated unless \<open>i = 0\<close>, where the colour becomes the champion's.
\<close>

definition createAIBird :: "nat \<Rightarrow> NeuralNetwork list \<Rightarrow> rng \<Rightarrow> bird \<times> rng" where
  "createAIBird i bestBrains r =
     (let (u, r1) = random r; c = Hsla (fl64 (u * 360)) in
      if length bestBrains > 0 then
        (let parentBrain = bestBrains ! (i mod length bestBrains);
             (b, r2) = copy parentBrain r1
         in if i > 0 then (let (b', r3) = mutate AI_MUTATION_RATE b r2 in (spawn_bird b' c, r3))
            else (spawn_bird b (Hex ''#FF0000''), r2))
      else (let (b, r2) = new_NeuralNetwork 4 6 1 r1 in (spawn_bird b c, r2)))"

fun createAIBirds_from :: "nat list \<Rightarrow> NeuralNetwork list \<Rightarrow> rng \<Rightarrow> bird list \<times> rng" where
  "createAIBirds_from [] bestBrains r = ([], r)"
| "createAIBirds_from (i # is) bestBrains r =
     (let (b, r1) = createAIBird i bestBrains r;
          (bs, r2) = createAIBirds_from is bestBrains r1
      in (b # bs, r2))"

definition createAIBirds :: "nat \<Rightarrow> NeuralNetwork list \<Rightarrow> rng \<Rightarrow> bird list \<times> rng" where
  "createAIBirds population bestBrains r = createAIBirds_from [0..<population] bestBrains r"

subsection \<open>The per-bird part of update\<close>

text \<open>
  The body of the \<open>forEach\<close> is cut at its comments: the target ("Find closest
  pipe"), \<open>accrue\<close> ("Update distance", "Calculate Fitness"), \<open>sense\<close> and
  \<open>decide\<close> ("AI Decision"), \<open>physics\<close> ("Physics", "Rotation"), \<open>ground\<close>
  and \<open>ceiling_clamp\<close> ("Collision"), \<open>overlaps\<close>, \<open>outside_gap\<close> and
  \<open>pipe_collision\<close> ("Pipe Collision").
\<close>

text \<open>
  The target of the AI: the first pipe whose right edge is to the right of the first
  bird's \<open>x - BIRD_RADIUS\<close>. With no bird, \<open>birdsRef.current[0]?.x\<close> is undefined, the
  comparison is false for every pipe, and nothing is found. When nothing is found the
  virtual target is used.
\<close>

definition find_closest :: "Pipe list \<Rightarrow> bird list \<Rightarrow> Pipe option" where
  "find_closest ps bs =
     (case bs of
        [] \<Rightarrow> None
      | b0 # _ \<Rightarrow> find (\<lambda>pipe. pipe_x pipe + PIPE_WIDTH > bird_x b0 - BIRD_RADIUS) ps)"

definition virtual_pipe :: Pipe where
  "virtual_pipe =
     \<lparr>pipe_x = CANVAS_WIDTH, topHeight = CANVAS_HEIGHT / 2 - PIPE_GAP / 2, passed = False\<rparr>"

definition closestPipe :: "Pipe list \<Rightarrow> bird list \<Rightarrow> Pipe" where
  "closestPipe ps bs = (case find_closest ps bs of None \<Rightarrow> virtual_pipe | Some pipe \<Rightarrow> pipe)"

definition accrue :: "bird \<Rightarrow> bird" where
  "accrue bird =
     (let b1 = bird\<lparr>distance := distance bird + PIPE_SPEED\<rparr>
      in b1\<lparr>fitness := distance b1 + (real (score b1) * 5000)\<rparr>)"

definition sense :: "Pipe \<Rightarrow> bird \<Rightarrow> real list" where
  "sense target bird =
     (let gapCenterY = topHeight target + PIPE_GAP / 2 in
      [bird_y bird / CANVAS_HEIGHT,
       (velocity bird + 20) / 40,
       (pipe_x target + PIPE_WIDTH - bird_x bird) / CANVAS_WIDTH,
       (bird_y bird - gapCenterY) / CANVAS_HEIGHT + 0.5])"

text \<open>
  \<open>output[0] > 0.5\<close>: false when the output array is empty (undefined) or its first
  element is NaN.
\<close>

definition wants_jump :: "real option list \<Rightarrow> bool" where
  "wants_jump out = (case out of Some v # _ \<Rightarrow> v > 0.5 | _ \<Rightarrow> False)"

definition decide :: "GameMode \<Rightarrow> bool \<Rightarrow> Pipe \<Rightarrow> bird \<Rightarrow> error + bird" where
  "decide mode isAutopilot target bird =
     (if mode = AI \<or> (mode = PLAYER \<and> isAutopilot) then
        (case predict (brain bird) (sense target bird) of
           Inl e \<Rightarrow> Inl e
         | Inr out \<Rightarrow>
             Inr (if wants_jump out then bird\<lparr>velocity := JUMP_STRENGTH\<rparr> else bird))
      else Inr bird)"

text \<open>
  The rotation: \<open>Math.min(Math.PI / 4, Math.max(-Math.PI / 4, velocity * 0.1))\<close>, with
  \<open>Math.PI\<close> the binary64 number nearest to \<open>pi\<close>.
\<close>

definition rotation_of :: "real \<Rightarrow> real" where
  "rotation_of v = min (fl64 (fl64 pi / 4)) (max (fl64 (- fl64 pi / 4)) (fl64 (v * fl64 0.1)))"

text \<open>"Physics": \<open>velocity += GRAVITY; y += velocity\<close>, each sum rounded.\<close>

definition physics :: "bird \<Rightarrow> bird" where
  "physics bird =
     (let b1 = bird\<lparr>velocity := fl64 (velocity bird + GRAVITY)\<rparr>;
          b2 = b1\<lparr>bird_y := fl64 (bird_y b1 + velocity b1)\<rparr>
      in b2\<lparr>rotation := rotation_of (velocity b2)\<rparr>)"

definition ground :: "bird \<Rightarrow> bird" where
  "ground bird =
     (if fl64 (bird_y bird + BIRD_RADIUS) \<ge> CANVAS_HEIGHT - GROUND_HEIGHT
      then bird\<lparr>alive := False\<rparr> else bird)"

definition ceiling_clamp :: "bird \<Rightarrow> bird" where
  "ceiling_clamp bird =
     (if fl64 (bird_y bird - BIRD_RADIUS) \<le> 0
      then bird\<lparr>bird_y := BIRD_RADIUS, velocity := 0\<rparr> else bird)"

text \<open>
  "Pipe Collision": the outer test of the loop body (horizontal overlap, both
  comparisons strict) and the inner test (the top of the bird above the gap or its
  bottom below it, both comparisons strict), on the rounded sums.
\<close>

definition overlaps :: "bird \<Rightarrow> Pipe \<Rightarrow> bool" where
  "overlaps bird pipe \<longleftrightarrow>
     fl64 (bird_x bird + BIRD_RADIUS) > pipe_x pipe \<and>
     fl64 (bird_x bird - BIRD_RADIUS) < fl64 (pipe_x pipe + PIPE_WIDTH)"

definition outside_gap :: "bird \<Rightarrow> Pipe \<Rightarrow> bool" where
  "outside_gap bird pipe \<longleftrightarrow>
     fl64 (bird_y bird - BIRD_RADIUS) < topHeight pipe \<or>
     fl64 (bird_y bird + BIRD_RADIUS) > fl64 (topHeight pipe + PIPE_GAP)"

fun pipe_collision :: "Pipe list \<Rightarrow> bird \<Rightarrow> bird" where
  "pipe_collision [] bird = bird"
| "pipe_collision (pipe # ps) bird =
     pipe_collision ps
       (if overlaps bird pipe
        then (if outside_gap bird pipe then bird\<lparr>alive := False\<rparr> else bird)
        else bird)"

text \<open>The body of the \<open>forEach\<close> over the birds: a dead bird is skipped.\<close>

definition update_bird :: "GameMode \<Rightarrow> bool \<Rightarrow> Pipe \<Rightarrow> Pipe list \<Rightarrow> bird \<Rightarrow> error + bird" where
  "update_bird mode isAutopilot target ps bird =
     (if \<not> alive bird then Inr bird
      else
        (case decide mode isAutopilot target (accrue bird) of
           Inl e \<Rightarrow> Inl e
         | Inr b \<Rightarrow> Inr (pipe_collision ps (ceiling_clamp (ground (physics b))))))"

fun update_birds :: "GameMode \<Rightarrow> bool \<Rightarrow> Pipe \<Rightarrow> Pipe list \<Rightarrow> bird list \<Rightarrow> error + bird list" where
  "update_birds mode isAutopilot target ps [] = Inr []"
| "update_birds mode isAutopilot target ps (bird # bs) =
     (case update_bird mode isAutopilot target ps bird of
        Inl e \<Rightarrow> Inl e
      | Inr b \<Rightarrow>
          (case update_birds mode isAutopilot target ps bs of
             Inl e \<Rightarrow> Inl e
           | Inr bs' \<Rightarrow> Inr (b # bs')))"

text \<open>
  \<open>currentGenBestScore\<close>: the largest score among the birds that were alive when the
  loop reached them (0 when there is none).
\<close>

definition currentGenBestScore :: "bird list \<Rightarrow> nat" where
  "currentGenBestScore bs = foldr max (map score (filter alive bs)) 0"

subsection \<open>The rest of update\<close>

text \<open>
  \<open>gameOver\<close> does nothing in AI mode. In player mode it ends the game and records a
  new high score.
\<close>

definition gameOver :: "GameMode \<Rightarrow> game \<Rightarrow> game" where
  "gameOver mode g =
     (if mode = AI then g
      else
        (let g1 = g\<lparr>gameState := GAME_OVER\<rparr> in
         if scoreRef g1 > highScore g1
         then g1\<lparr>highScore := scoreRef g1, stored_highscore := Some (scoreRef g1)\<rparr>
         else g1))"

text \<open>
  \<open>Array.prototype.sort\<close> is stable; with the comparator \<open>b.fitness - a.fitness\<close> it
  sorts by fitness, largest first, which is the stable insertion sort on the negated
  fitness.
\<close>

definition sort_by_fitness :: "bird list \<Rightarrow> bird list" where
  "sort_by_fitness bs = sort_key (\<lambda>b. - fitness b) bs"

definition bestCount :: nat where "bestCount = 5"

text \<open>
  \<open>nextGeneration\<close>. The last statement logs \<open>birds[0].score\<close>, which throws when the
  old population is empty.
\<close>

definition nextGeneration :: "game \<Rightarrow> error + game" where
  "nextGeneration g =
     (let sorted = sort_by_fitness (birds g);
          bestBrains = map brain (take bestCount sorted);
          g1 = g\<lparr>birds := sorted, savedBrains := bestBrains\<rparr>;
          g2 = (if length bestBrains > 0
                then g1\<lparr>stored_model := Some (toJSON (bestBrains ! 0))\<rparr> else g1);
          (bs, r) = createAIBirds AI_POPULATION bestBrains (rand g2);
          g3 = g2\<lparr>birds := bs, rand := r, pipes := [], scoreRef := 0, score_ui := 0,
                 lastPipeSpawn := 0, gameState := PLAYING, generation := generation g2 + 1,
                 aliveCount := AI_POPULATION, bestScore := 0\<rparr>
      in case sorted of [] \<Rightarrow> Inl TypeError | _ # _ \<Rightarrow> Inr g3)"

text \<open>The spawn counter and the new pipe at the right edge.\<close>

definition spawn_pipe :: "game \<Rightarrow> game" where
  "spawn_pipe g =
     (let g1 = g\<lparr>lastPipeSpawn := lastPipeSpawn g + 1\<rparr> in
      if lastPipeSpawn g1 > PIPE_SPAWN_RATE then
        (let minPipeH = 50;
             maxPipeH = CANVAS_HEIGHT - GROUND_HEIGHT - PIPE_GAP - minPipeH;
             (u, r) = random (rand g1);
             top = real_of_int \<lfloor>fl64 (u * (maxPipeH - minPipeH + 1))\<rfloor> + minPipeH
         in g1\<lparr>pipes := pipes g1 @ [\<lparr>pipe_x = CANVAS_WIDTH, topHeight = top, passed = False\<rparr>],
                rand := r, lastPipeSpawn := 0\<rparr>)
      else g1)"

text \<open>
  The body of the loop "Move Pipes & Score" for index \<open>i\<close>; \<open>x0\<close> is the \<open>x\<close> of the
  first bird.
\<close>

definition score_alive :: "bird \<Rightarrow> bird" where
  "score_alive b = (if alive b then b\<lparr>score := score b + 1\<rparr> else b)"

definition move_pipe_at :: "real \<Rightarrow> nat \<Rightarrow> game \<Rightarrow> game" where
  "move_pipe_at x0 i g =
     (let pipe = (pipes g ! i)\<lparr>pipe_x := pipe_x (pipes g ! i) - PIPE_SPEED\<rparr> in
      if pipe_x pipe + PIPE_WIDTH < 0
      then g\<lparr>pipes := take i (pipes g) @ drop (Suc i) (pipes g)\<rparr>
      else if \<not> passed pipe \<and> x0 > pipe_x pipe + PIPE_WIDTH then
        (let bs = map score_alive (birds g);
             maxScore = foldr max (map score bs) 0
         in g\<lparr>pipes := (pipes g)[i := pipe\<lparr>passed := True\<rparr>], birds := bs,
               scoreRef := maxScore, score_ui := maxScore\<rparr>)
      else g\<lparr>pipes := (pipes g)[i := pipe]\<rparr>)"

text \<open>The loop \<open>for (i = length - 1; i >= 0; i--)\<close>: \<open>move_pipes x0 n\<close> runs the indices below \<open>n\<close>.\<close>

fun move_pipes :: "real \<Rightarrow> nat \<Rightarrow> game \<Rightarrow> game" where
  "move_pipes x0 0 g = g"
| "move_pipes x0 (Suc i) g = move_pipes x0 i (move_pipe_at x0 i g)"

text \<open>
  "Pipe Logic" and "Move Pipes & Score". The loop reads \<open>birdsRef.current[0].x\<close>,
  which throws without a bird; \<open>update\<close> returns before it gets here in that case.
\<close>

definition pipe_logic :: "game \<Rightarrow> error + game" where
  "pipe_logic g =
     (let g1 = spawn_pipe g in
      case birds g1 of
        [] \<Rightarrow> Inl TypeError
      | b0 # _ \<Rightarrow> Inr (move_pipes (bird_x b0) (length (pipes g1)) g1))"

definition living :: "bird list \<Rightarrow> nat" where
  "living bs = length (filter alive bs)"

definition update :: "GameMode \<Rightarrow> bool \<Rightarrow> game \<Rightarrow> error + game" where
  "update mode isAutopilot g =
     (case update_birds mode isAutopilot (closestPipe (pipes g) (birds g)) (pipes g) (birds g) of
        Inl e \<Rightarrow> Inl e
      | Inr bs \<Rightarrow>
          (let g1 = g\<lparr>birds := bs\<rparr> in
           if mode = AI then
             (let g2 = g1\<lparr>bestScore := currentGenBestScore (birds g), aliveCount := living bs\<rparr>
              in if living bs = 0 then nextGeneration g2 else pipe_logic g2)
           else
             (case bs of
                [] \<Rightarrow> Inr (gameOver mode g1)
              | b0 # _ \<Rightarrow> if \<not> alive b0 then Inr (gameOver mode g1) else pipe_logic g1)))"

text \<open>\<open>jump\<close>, the only other writer of a bird, in player mode without the autopilot.\<close>

definition jump :: "GameMode \<Rightarrow> bool \<Rightarrow> game \<Rightarrow> game" where
  "jump mode isAutopilot g =
     (if mode = AI then g
      else if isAutopilot then g
      else
        (case birds g of
           [] \<Rightarrow> g
         | b0 # bs \<Rightarrow>
             if gameState g = PLAYING then g\<lparr>birds := b0\<lparr>velocity := JUMP_STRENGTH\<rparr> # bs\<rparr>
             else if gameState g = READY
             then g\<lparr>gameState := PLAYING, birds := b0\<lparr>velocity := JUMP_STRENGTH\<rparr> # bs\<rparr>
             else g))"

subsection \<open>Starting a run in AI mode\<close>

text \<open>
  \<open>resetGame('AI')\<close>: the AI branch of \<open>resetGame\<close> followed by its common part. (The
  player branch builds its bird with \<open>createPlayerBird\<close>, modelled further down.)
\<close>

definition resetGame_AI :: "game \<Rightarrow> game" where
  "resetGame_AI g =
     (let (bs, r) = createAIBirds AI_POPULATION [] (rand g)
      in g\<lparr>birds := bs, rand := r, generation := 1, bestScore := 0,
            aliveCount := AI_POPULATION, savedBrains := [], pipes := [], scoreRef := 0,
            score_ui := 0, lastPipeSpawn := 0, gameState := READY\<rparr>)"

text \<open>
  "START TRAINING": \<open>resetGame(); setGameState('PLAYING')\<close>, in AI mode.
\<close>

definition startTraining :: "game \<Rightarrow> game" where
  "startTraining g = (resetGame_AI g)\<lparr>gameState := PLAYING\<rparr>"

text \<open>
  The states of a run in AI mode: \<open>resetGame('AI')\<close> or "START TRAINING" on any
  state whose random sequence stays in \<open>[0, 1)\<close>, as \<open>Math.random\<close> does, and then any
  number of calls of \<open>update\<close> that return, rollovers included; the loop calls
  \<open>update\<close> only while the game is playing.
\<close>

inductive reachable :: "game \<Rightarrow> bool" where
  reset: "(\<forall>n. 0 \<le> rand g0 n \<and> rand g0 n < 1) \<Longrightarrow> reachable (resetGame_AI g0)"
| start: "(\<forall>n. 0 \<le> rand g0 n \<and> rand g0 n < 1) \<Longrightarrow> reachable (startTraining g0)"
| step: "reachable g \<Longrightarrow> gameState g = PLAYING \<Longrightarrow> update AI isAutopilot g = Inr g' \<Longrightarrow>
           reachable g'"

text \<open>
  What holds of the population between two calls of \<open>update\<close> within a generation:
  \<open>d\<close> is the distance every live bird has covered, \<open>s\<close> the number of pipes passed
  so far and \<open>sp\<close> that number when the birds were last moved. A live bird has
  distance \<open>d\<close>, score \<open>s\<close> and the fitness computed when it was last moved; a dead
  bird kept the values of the step in which it died; and of two dead birds the one
  with the smaller score did not get farther.
\<close>

definition gen_inv :: "real \<Rightarrow> nat \<Rightarrow> nat \<Rightarrow> bird list \<Rightarrow> bool" where
  "gen_inv d sp s bs \<longleftrightarrow>
     sp \<le> s \<and>
     (\<forall>b \<in> set bs.
        (alive b \<longrightarrow> distance b = d \<and> score b = s \<and> fitness b = d + real sp * 5000) \<and>
        (\<not> alive b \<longrightarrow> distance b \<le> d \<and> score b \<le> sp \<and>
           fitness b = distance b + real (score b) * 5000)) \<and>
     (\<forall>b1 \<in> set bs. \<forall>b2 \<in> set bs.
        \<not> alive b1 \<and> \<not> alive b2 \<and> score b2 < score b1 \<longrightarrow> distance b2 \<le> distance b1)"

subsection \<open>What one pass of the pipe loop does, pipe by pipe\<close>

text \<open>
  The three functions below describe the effect of "Move Pipes & Score" on one pipe
  and on one bird; \<open>move_pipes\<close>, the loop of the source, is proved equal to them.
  A pipe moves left by the speed and is dropped once its right edge is left of 0;
  otherwise its flag is set if it was set or the reference \<open>x0\<close> is beyond its right
  edge. It is newly passed when it stays, was not flagged and the reference is beyond
  its right edge.
\<close>

definition advance_pipe :: "real \<Rightarrow> Pipe \<Rightarrow> Pipe option" where
  "advance_pipe x0 p =
     (if pipe_x p - PIPE_SPEED + PIPE_WIDTH < 0 then None
      else Some (p\<lparr>pipe_x := pipe_x p - PIPE_SPEED,
                   passed := passed p \<or> x0 > pipe_x p - PIPE_SPEED + PIPE_WIDTH\<rparr>))"

definition newly_passed :: "real \<Rightarrow> Pipe \<Rightarrow> bool" where
  "newly_passed x0 p \<longleftrightarrow>
     \<not> pipe_x p - PIPE_SPEED + PIPE_WIDTH < 0 \<and> \<not> passed p \<and>
     x0 > pipe_x p - PIPE_SPEED + PIPE_WIDTH"

definition add_score :: "nat \<Rightarrow> bird \<Rightarrow> bird" where
  "add_score k b = (if alive b then b\<lparr>score := score b + k\<rparr> else b)"

subsection \<open>Executions, and one pipe along an execution\<close>

text \<open>
  After a call of \<open>update\<close> the game continues when, in AI mode, some bird is alive
  (else the call ends in \<open>nextGeneration\<close>) and, in player mode, the first bird exists
  and is alive (else the call ends in \<open>gameOver\<close>).
\<close>

definition continues :: "GameMode \<Rightarrow> bird list \<Rightarrow> bool" where
  "continues mode bs \<longleftrightarrow>
     (if mode = AI then living bs \<noteq> 0 else (case bs of [] \<Rightarrow> False | b0 # _ \<Rightarrow> alive b0))"

text \<open>
  \<open>steps mode g n g'\<close>: an execution leads from \<open>g\<close> to \<open>g'\<close> with \<open>n\<close> calls of \<open>update\<close>
  that return, with any autopilot setting, and any number of calls of \<open>jump\<close> between
  them. (The loop calls \<open>update\<close> only while the game is playing; the relation does not
  ask for that, so it holds of more executions than the program has.)
\<close>

inductive steps :: "GameMode \<Rightarrow> game \<Rightarrow> nat \<Rightarrow> game \<Rightarrow> bool" where
  start: "steps mode g 0 g"
| tick: "steps mode g n g1 \<Longrightarrow> update mode a g1 = Inr g2 \<Longrightarrow> steps mode g (Suc n) g2"
| press: "steps mode g n g1 \<Longrightarrow> steps mode g n (jump mode a g1)"

text \<open>
  One pipe under \<open>n\<close> passes of "Move Pipes & Score" with the reference at \<open>x0\<close>:
  \<open>pipe_after\<close> is the pipe after them, if it is still there, and \<open>passages\<close> is the
  number of those passes in which the pipe is newly passed, that is, in which it adds
  1 to the score of the live birds.
\<close>

fun pipe_after :: "real \<Rightarrow> nat \<Rightarrow> Pipe \<Rightarrow> Pipe option" where
  "pipe_after x0 0 p = Some p"
| "pipe_after x0 (Suc n) p =
     (case advance_pipe x0 p of None \<Rightarrow> None | Some q \<Rightarrow> pipe_after x0 n q)"

fun passages :: "real \<Rightarrow> nat \<Rightarrow> Pipe \<Rightarrow> nat" where
  "passages x0 0 p = 0"
| "passages x0 (Suc n) p =
     (case advance_pipe x0 p of
        None \<Rightarrow> 0
      | Some q \<Rightarrow> (if newly_passed x0 p then 1 else 0) + passages x0 n q)"

subsection \<open>Concrete values used to instantiate the theorems\<close>

definition zero_brain :: NeuralNetwork where
  "zero_brain =
     \<lparr>inputNodes = 4, hiddenNodes = 6, outputNodes = 1,
      weightsIH = replicate 4 (replicate 6 0), weightsHO = replicate 6 [0],
      biasH = replicate 6 0, biasO = [0]\<rparr>"

definition fresh_bird :: bird where
  "fresh_bird = spawn_bird zero_brain (Hex ''#FACC15'')"

definition pipe_at :: "real \<Rightarrow> Pipe" where
  "pipe_at x = \<lparr>pipe_x = x, topHeight = 225, passed = False\<rparr>"

definition game0 :: game where
  "game0 =
     \<lparr>birds = [fresh_bird], pipes = [], lastPipeSpawn = 0, scoreRef = 0, savedBrains = [],
      gameState = PLAYING, score_ui = 0, highScore = 0, generation = 1, aliveCount = 1,
      bestScore = 0, stored_model = None, stored_highscore = None, rand = (\<lambda>n. 1 / 2)\<rparr>"

definition game5 :: game where
  "game5 =
     game0\<lparr>birds :=
       [fresh_bird\<lparr>fitness := 30\<rparr>,
        fresh_bird\<lparr>fitness := 5660, brain := zero_brain\<lparr>biasO := [1]\<rparr>\<rparr>,
        fresh_bird\<lparr>fitness := 90\<rparr>,
        fresh_bird\<lparr>fitness := 5630\<rparr>,
        fresh_bird\<lparr>fitness := 60\<rparr>],
       rand := (\<lambda>n. if n = 76 then 0 else if n = 78 then 3 / 4 else 1 / 2)\<rparr>"

subsection \<open>A run of 208 steps in AI mode\<close>

text \<open>
  \<open>run mode isAutopilot n\<close> calls \<open>update\<close> \<open>n\<close> times, as the loop does while the game
  is playing, and stops at the first exception.
\<close>

fun run :: "GameMode \<Rightarrow> bool \<Rightarrow> nat \<Rightarrow> game \<Rightarrow> error + game" where
  "run mode isAutopilot 0 g = Inr g"
| "run mode isAutopilot (Suc n) g =
     (case update mode isAutopilot g of Inl e \<Rightarrow> Inl e | Inr g' \<Rightarrow> run mode isAutopilot n g')"

text \<open>
  A network of the 4/6/1 shape, with weights in \<open>[-1, 1)\<close>, that asks for a jump exactly
  when the bird is more than \<open>600 c\<close> below the centre of the target's gap; the random
  sequence \<open>seed0\<close>, of binary64 numbers in \<open>[0, 1)\<close>, that makes "START TRAINING"
  give such a network, with \<open>c = 0\<close>, to the first bird, one with \<open>c = 3 / 32\<close> to the
  second, the all-zero network (which never jumps) to the other 48 birds, and the top
  160 to every pipe; and the states of the run from there after 0, 26, 52, ..., 182, 206,
  207 and 208 calls of \<open>update\<close>. In call 207 the first pipe is passed, by the first
  bird alone: the second bird hits that pipe in the same call.
\<close>

definition thr_brain :: "real \<Rightarrow> NeuralNetwork" where
  "thr_brain c =
     \<lparr>inputNodes = 4, hiddenNodes = 6, outputNodes = 1,
      weightsIH = [ [0, 0, 0, 0, 0, 0], [0, 0, 0, 0, 0, 0], [0, 0, 0, 0, 0, 0],
                   [1 / 2, 0, 0, 0, 0, 0]],
      weightsHO = [ [1 / 2], [0], [0], [0], [0], [0]],
      biasH = [- 1 / 4 - c / 2, 0, 0, 0, 0, 0], biasO = [- 1 / 4]\<rparr>"

definition seed0 :: rng where
  "seed0 n =
     (if n = 19 \<or> n = 25 \<or> n = 57 \<or> n = 63 then 3 / 4
      else if n = 31 \<or> n = 37 \<or> n = 75 then 3 / 8
      else if n = 69 then 45 / 128
      else if n < 1900 then 1 / 2
      else 113 / 256)"

definition game00 :: game where
  "game00 = game0\<lparr>rand := seed0\<rparr>"

definition state0 :: game where
  "state0 =
     \<lparr>birds = spawn_bird (thr_brain 0) (Hsla 180) # spawn_bird (thr_brain (3 / 32)) (Hsla 180)
           # replicate 48 (spawn_bird zero_brain (Hsla 180)),
      pipes = [], lastPipeSpawn = 0, scoreRef = 0, savedBrains = [],
      gameState = PLAYING, score_ui = 0, highScore = 0, generation = 1, aliveCount = 50,
      bestScore = 0, stored_model = None, stored_highscore = None, rand = (\<lambda>n. 113 / 256)\<rparr>"

definition state26 :: game where
  "state26 =
     \<lparr>birds =
        \<lparr>bird_x = 4691249611844267 / 35184372088832, bird_y = (2600125097364685 / 8796093022208), velocity = (7881299347898365 / 1125899906842624),
          rotation = rotation_of (7881299347898365 / 1125899906842624),
          brain = thr_brain 0, fitness = 78, score = 0, distance = 78,
          alive = True, color = Hsla 180\<rparr> #
        \<lparr>bird_x = 4691249611844267 / 35184372088832, bird_y = (5520427980737741 / 17592186044416), velocity = (- (7205759403792809 / 9007199254740992)),
          rotation = rotation_of (- (7205759403792809 / 9007199254740992)),
          brain = thr_brain (3 / 32), fitness = 78, score = 0, distance = 78,
          alive = True, color = Hsla 180\<rparr> #
        replicate 48
        \<lparr>bird_x = 4691249611844267 / 35184372088832, bird_y = 495, velocity = (8444249301319677 / 562949953421312),
          rotation = rotation_of (8444249301319677 / 562949953421312),
          brain = zero_brain, fitness = 75, score = 0, distance = 75,
          alive = False, color = Hsla 180\<rparr>,
      pipes = [],
      lastPipeSpawn = 26, scoreRef = 0, savedBrains = [],
      gameState = PLAYING, score_ui = 0, highScore = 0, generation = 1, aliveCount = 2,
      bestScore = 0, stored_model = None, stored_highscore = None,
      rand = (\<lambda>n. 113 / 256)\<rparr>"

definition state52 :: game where
  "state52 =
     \<lparr>birds =
        \<lparr>bird_x = 4691249611844267 / 35184372088832, bird_y = (1311497469611213 / 4398046511104), velocity = (7881299347898365 / 1125899906842624),
          rotation = rotation_of (7881299347898365 / 1125899906842624),
          brain = thr_brain 0, fitness = 156, score = 0, distance = 156,
          alive = True, color = Hsla 180\<rparr> #
        \<lparr>bird_x = 4691249611844267 / 35184372088832, bird_y = (2714474306653389 / 8796093022208), velocity = (- (900719925474107 / 4503599627370496)),
          rotation = rotation_of (- (900719925474107 / 4503599627370496)),
          brain = thr_brain (3 / 32), fitness = 156, score = 0, distance = 156,
          alive = True, color = Hsla 180\<rparr> #
        replicate 48
        \<lparr>bird_x = 4691249611844267 / 35184372088832, bird_y = 495, velocity = (8444249301319677 / 562949953421312),
          rotation = rotation_of (8444249301319677 / 562949953421312),
          brain = zero_brain, fitness = 75, score = 0, distance = 75,
          alive = False, color = Hsla 180\<rparr>,
      pipes = [],
      lastPipeSpawn = 52, scoreRef = 0, savedBrains = [],
      gameState = PLAYING, score_ui = 0, highScore = 0, generation = 1, aliveCount = 2,
      bestScore = 0, stored_model = None, stored_highscore = None,
      rand = (\<lambda>n. 113 / 256)\<rparr>"

definition state78 :: game where
  "state78 =
     \<lparr>birds =
        \<lparr>bird_x = 4691249611844267 / 35184372088832, bird_y = (2645864781080167 / 8796093022208), velocity = (7881299347898365 / 1125899906842624),
          rotation = rotation_of (7881299347898365 / 1125899906842624),
          brain = thr_brain 0, fitness = 234, score = 0, distance = 234,
          alive = True, color = Hsla 180\<rparr> #
        \<lparr>bird_x = 4691249611844267 / 35184372088832, bird_y = (1368672074255565 / 4398046511104), velocity = (- (900719925474107 / 4503599627370496)),
          rotation = rotation_of (- (900719925474107 / 4503599627370496)),
          brain = thr_brain (3 / 32), fitness = 234, score = 0, distance = 234,
          alive = True, color = Hsla 180\<rparr> #
        replicate 48
        \<lparr>bird_x = 4691249611844267 / 35184372088832, bird_y = 495, velocity = (8444249301319677 / 562949953421312),
          rotation = rotation_of (8444249301319677 / 562949953421312),
          brain = zero_brain, fitness = 75, score = 0, distance = 75,
          alive = False, color = Hsla 180\<rparr>,
      pipes = [],
      lastPipeSpawn = 78, scoreRef = 0, savedBrains = [],
      gameState = PLAYING, score_ui = 0, highScore = 0, generation = 1, aliveCount = 2,
      bestScore = 0, stored_model = None, stored_highscore = None,
      rand = (\<lambda>n. 113 / 256)\<rparr>"

definition state104 :: game where
  "state104 =
     \<lparr>birds =
        \<lparr>bird_x = 4691249611844267 / 35184372088832, bird_y = (2288743404378523 / 8796093022208), velocity = (- (4165829655317709 / 562949953421312)),
          rotation = rotation_of (- (4165829655317709 / 562949953421312)),
          brain = thr_brain 0, fitness = 312, score = 0, distance = 312,
          alive = True, color = Hsla 180\<rparr> #
        \<lparr>bird_x = 4691249611844267 / 35184372088832, bird_y = (2586051348529153 / 8796093022208), velocity = (- (4165829655317709 / 562949953421312)),
          rotation = rotation_of (- (4165829655317709 / 562949953421312)),
          brain = thr_brain (3 / 32), fitness = 312, score = 0, distance = 312,
          alive = True, color = Hsla 180\<rparr> #
        replicate 48
        \<lparr>bird_x = 4691249611844267 / 35184372088832, bird_y = 495, velocity = (8444249301319677 / 562949953421312),
          rotation = rotation_of (8444249301319677 / 562949953421312),
          brain = zero_brain, fitness = 75, score = 0, distance = 75,
          alive = False, color = Hsla 180\<rparr>,
      pipes = [\<lparr>pipe_x = 388, topHeight = 160, passed = False\<rparr>],
      lastPipeSpawn = 3, scoreRef = 0, savedBrains = [],
      gameState = PLAYING, score_ui = 0, highScore = 0, generation = 1, aliveCount = 2,
      bestScore = 0, stored_model = None, stored_highscore = None,
      rand = (\<lambda>n. 113 / 256)\<rparr>"

definition state130 :: game where
  "state130 =
     \<lparr>birds =
        \<lparr>bird_x = 4691249611844267 / 35184372088832, bird_y = (965811013838439 / 4398046511104), velocity = (6530219459687217 / 1125899906842624),
          rotation = rotation_of (6530219459687217 / 1125899906842624),
          brain = thr_brain 0, fitness = 390, score = 0, distance = 390,
          alive = True, color = Hsla 180\<rparr> #
        \<lparr>bird_x = 4691249611844267 / 35184372088832, bird_y = (1304460595193447 / 4398046511104), velocity = (8556839292003939 / 1125899906842624),
          rotation = rotation_of (8556839292003939 / 1125899906842624),
          brain = thr_brain (3 / 32), fitness = 390, score = 0, distance = 390,
          alive = True, color = Hsla 180\<rparr> #
        replicate 48
        \<lparr>bird_x = 4691249611844267 / 35184372088832, bird_y = 495, velocity = (8444249301319677 / 562949953421312),
          rotation = rotation_of (8444249301319677 / 562949953421312),
          brain = zero_brain, fitness = 75, score = 0, distance = 75,
          alive = False, color = Hsla 180\<rparr>,
      pipes = [\<lparr>pipe_x = 310, topHeight = 160, passed = False\<rparr>],
      lastPipeSpawn = 29, scoreRef = 0, savedBrains = [],
      gameState = PLAYING, score_ui = 0, highScore = 0, generation = 1, aliveCount = 2,
      bestScore = 0, stored_model = None, stored_highscore = None,
      rand = (\<lambda>n. 113 / 256)\<rparr>"

definition state156 :: game where
  "state156 =
     \<lparr>birds =
        \<lparr>bird_x = 4691249611844267 / 35184372088832, bird_y = (7817967478138475 / 35184372088832), velocity = (6530219459687217 / 1125899906842624),
          rotation = rotation_of (6530219459687217 / 1125899906842624),
          brain = thr_brain 0, fitness = 468, score = 0, distance = 468,
          alive = True, color = Hsla 180\<rparr> #
        \<lparr>bird_x = 4691249611844267 / 35184372088832, bird_y = (2499849636911515 / 8796093022208), velocity = (- (4165829655317709 / 562949953421312)),
          rotation = rotation_of (- (4165829655317709 / 562949953421312)),
          brain = thr_brain (3 / 32), fitness = 468, score = 0, distance = 468,
          alive = True, color = Hsla 180\<rparr> #
        replicate 48
        \<lparr>bird_x = 4691249611844267 / 35184372088832, bird_y = 495, velocity = (8444249301319677 / 562949953421312),
          rotation = rotation_of (8444249301319677 / 562949953421312),
          brain = zero_brain, fitness = 75, score = 0, distance = 75,
          alive = False, color = Hsla 180\<rparr>,
      pipes = [\<lparr>pipe_x = 232, topHeight = 160, passed = False\<rparr>],
      lastPipeSpawn = 55, scoreRef = 0, savedBrains = [],
      gameState = PLAYING, score_ui = 0, highScore = 0, generation = 1, aliveCount = 2,
      bestScore = 0, stored_model = None, stored_highscore = None,
      rand = (\<lambda>n. 113 / 256)\<rparr>"

definition state182 :: game where
  "state182 =
     \<lparr>birds =
        \<lparr>bird_x = 4691249611844267 / 35184372088832, bird_y = (983403199882855 / 4398046511104), velocity = (7205759403792791 / 1125899906842624),
          rotation = rotation_of (7205759403792791 / 1125899906842624),
          brain = thr_brain 0, fitness = 546, score = 0, distance = 546,
          alive = True, color = Hsla 180\<rparr> #
        \<lparr>bird_x = 4691249611844267 / 35184372088832, bird_y = (315339934846157 / 1099511627776), velocity = (- (4165829655317709 / 562949953421312)),
          rotation = rotation_of (- (4165829655317709 / 562949953421312)),
          brain = thr_brain (3 / 32), fitness = 546, score = 0, distance = 546,
          alive = True, color = Hsla 180\<rparr> #
        replicate 48
        \<lparr>bird_x = 4691249611844267 / 35184372088832, bird_y = 495, velocity = (8444249301319677 / 562949953421312),
          rotation = rotation_of (8444249301319677 / 562949953421312),
          brain = zero_brain, fitness = 75, score = 0, distance = 75,
          alive = False, color = Hsla 180\<rparr>,
      pipes = [\<lparr>pipe_x = 154, topHeight = 160, passed = False\<rparr>],
      lastPipeSpawn = 81, scoreRef = 0, savedBrains = [],
      gameState = PLAYING, score_ui = 0, highScore = 0, generation = 1, aliveCount = 2,
      bestScore = 0, stored_model = None, stored_highscore = None,
      rand = (\<lambda>n. 113 / 256)\<rparr>"

definition state206 :: game where
  "state206 =
     \<lparr>birds =
        \<lparr>bird_x = 4691249611844267 / 35184372088832, bird_y = (1882363906752513 / 8796093022208), velocity = (5854679515581643 / 1125899906842624),
          rotation = rotation_of (5854679515581643 / 1125899906842624),
          brain = thr_brain 0, fitness = 618, score = 0, distance = 618,
          alive = True, color = Hsla 180\<rparr> #
        \<lparr>bird_x = 4691249611844267 / 35184372088832, bird_y = (2543830102022555 / 8796093022208), velocity = (7881299347898365 / 1125899906842624),
          rotation = rotation_of (7881299347898365 / 1125899906842624),
          brain = thr_brain (3 / 32), fitness = 618, score = 0, distance = 618,
          alive = True, color = Hsla 180\<rparr> #
        replicate 48
        \<lparr>bird_x = 4691249611844267 / 35184372088832, bird_y = 495, velocity = (8444249301319677 / 562949953421312),
          rotation = rotation_of (8444249301319677 / 562949953421312),
          brain = zero_brain, fitness = 75, score = 0, distance = 75,
          alive = False, color = Hsla 180\<rparr>,
      pipes = [\<lparr>pipe_x = 82, topHeight = 160, passed = False\<rparr>, \<lparr>pipe_x = 385, topHeight = 160, passed = False\<rparr>],
      lastPipeSpawn = 4, scoreRef = 0, savedBrains = [],
      gameState = PLAYING, score_ui = 0, highScore = 0, generation = 1, aliveCount = 2,
      bestScore = 0, stored_model = None, stored_highscore = None,
      rand = (\<lambda>n. 113 / 256)\<rparr>"

definition state207 :: game where
  "state207 =
     \<lparr>birds =
        \<lparr>bird_x = 4691249611844267 / 35184372088832, bird_y = (3866762492562639 / 17592186044416), velocity = (6530219459687217 / 1125899906842624),
          rotation = rotation_of (6530219459687217 / 1125899906842624),
          brain = thr_brain 0, fitness = 621, score = 1, distance = 621,
          alive = True, color = Hsla 180\<rparr> #
        \<lparr>bird_x = 4691249611844267 / 35184372088832, bird_y = (326335051123917 / 1099511627776), velocity = (8556839292003939 / 1125899906842624),
          rotation = rotation_of (8556839292003939 / 1125899906842624),
          brain = thr_brain (3 / 32), fitness = 621, score = 0, distance = 621,
          alive = False, color = Hsla 180\<rparr> #
        replicate 48
        \<lparr>bird_x = 4691249611844267 / 35184372088832, bird_y = 495, velocity = (8444249301319677 / 562949953421312),
          rotation = rotation_of (8444249301319677 / 562949953421312),
          brain = zero_brain, fitness = 75, score = 0, distance = 75,
          alive = False, color = Hsla 180\<rparr>,
      pipes = [\<lparr>pipe_x = 79, topHeight = 160, passed = True\<rparr>, \<lparr>pipe_x = 382, topHeight = 160, passed = False\<rparr>],
      lastPipeSpawn = 5, scoreRef = 1, savedBrains = [],
      gameState = PLAYING, score_ui = 1, highScore = 0, generation = 1, aliveCount = 1,
      bestScore = 0, stored_model = None, stored_highscore = None,
      rand = (\<lambda>n. 113 / 256)\<rparr>"

definition state208 :: game where
  "state208 =
     \<lparr>birds =
        \<lparr>bird_x = 4691249611844267 / 35184372088832, bird_y = (7958704966493803 / 35184372088832), velocity = (7205759403792791 / 1125899906842624),
          rotation = rotation_of (7205759403792791 / 1125899906842624),
          brain = thr_brain 0, fitness = 5624, score = 1, distance = 624,
          alive = True, color = Hsla 180\<rparr> #
        \<lparr>bird_x = 4691249611844267 / 35184372088832, bird_y = (326335051123917 / 1099511627776), velocity = (8556839292003939 / 1125899906842624),
          rotation = rotation_of (8556839292003939 / 1125899906842624),
          brain = thr_brain (3 / 32), fitness = 621, score = 0, distance = 621,
          alive = False, color = Hsla 180\<rparr> #
        replicate 48
        \<lparr>bird_x = 4691249611844267 / 35184372088832, bird_y = 495, velocity = (8444249301319677 / 562949953421312),
          rotation = rotation_of (8444249301319677 / 562949953421312),
          brain = zero_brain, fitness = 75, score = 0, distance = 75,
          alive = False, color = Hsla 180\<rparr>,
      pipes = [\<lparr>pipe_x = 76, topHeight = 160, passed = True\<rparr>, \<lparr>pipe_x = 379, topHeight = 160, passed = False\<rparr>],
      lastPipeSpawn = 6, scoreRef = 1, savedBrains = [],
      gameState = PLAYING, score_ui = 1, highScore = 0, generation = 1, aliveCount = 1,
      bestScore = 1, stored_model = None, stored_highscore = None,
      rand = (\<lambda>n. 113 / 256)\<rparr>"

section \<open>Loading the player's network (createPlayerBird)\<close>

text \<open>
  What \<open>JSON.parse\<close> can return, and a JavaScript value read from it: a property that
  is missing reads as \<open>undefined\<close>. The pairs of an object are those that
  \<open>JSON.parse\<close> keeps, one for each key.
\<close>

datatype json = JNull | JBool bool | JNum real | JStr string | JArr "json list"
  | JObj "(string \<times> json) list"

datatype jsval = Undefined | Json json

text \<open>
  \<open>data.k\<close>: a TypeError on \<open>null\<close>, the member of an object, \<open>undefined\<close> on
  anything else (no number, string, boolean or array has a property of one of the
  seven names read here).
\<close>

definition get_prop :: "json \<Rightarrow> string \<Rightarrow> error + jsval" where
  "get_prop data k =
     (case data of
        JNull \<Rightarrow> Inl TypeError
      | JObj kvs \<Rightarrow> Inr (case map_of kvs k of None \<Rightarrow> Undefined | Some v \<Rightarrow> Json v)
      | _ \<Rightarrow> Inr Undefined)"

text \<open>
  \<open>Array(n)\<close>: with a number, an array of that length, or a RangeError unless the
  number is an integer in \<open>[0, 2^32)\<close>; with anything else, the array of length 1 that
  holds it.
\<close>

definition array_length :: "jsval \<Rightarrow> error + nat" where
  "array_length n =
     (case n of
        Json (JNum v) \<Rightarrow>
          if v = real_of_int \<lfloor>v\<rfloor> \<and> 0 \<le> v \<and> v < 2 ^ 32 then Inr (nat \<lfloor>v\<rfloor>) else Inl RangeError
      | _ \<Rightarrow> Inr 1)"

text \<open>
  The constructor on arbitrary arguments: what it throws, and the random numbers it
  has drawn by then. The hidden count is first used before any number is drawn; the
  output count after the input-to-hidden weights are drawn.
\<close>

definition construct_any :: "jsval \<Rightarrow> jsval \<Rightarrow> jsval \<Rightarrow> rng \<Rightarrow> (error + unit) \<times> rng" where
  "construct_any i h o' r =
     (case array_length i of
        Inl e \<Rightarrow> (Inl e, r)
      | Inr li \<Rightarrow>
          (case array_length h of
             Inl e \<Rightarrow> (Inl e, r)
           | Inr lh \<Rightarrow>
               (case array_length o' of
                  Inl e \<Rightarrow> (Inl e, snd (random_rows li lh r))
                | Inr lo \<Rightarrow> (Inr (), snd (new_NeuralNetwork li lh lo r)))))"

text \<open>
  \<open>fromJSON\<close> on arbitrary data: the object it returns has the seven fields as they
  were read from the data, whatever they are.
\<close>

record RawNetwork =
  raw_inputNodes :: jsval
  raw_hiddenNodes :: jsval
  raw_outputNodes :: jsval
  raw_weightsIH :: jsval
  raw_weightsHO :: jsval
  raw_biasH :: jsval
  raw_biasO :: jsval

definition fromJSON_any :: "json \<Rightarrow> rng \<Rightarrow> (error + RawNetwork) \<times> rng" where
  "fromJSON_any data r =
     (case get_prop data ''inputNodes'' of
        Inl e \<Rightarrow> (Inl e, r)
      | Inr i \<Rightarrow>
          (case get_prop data ''hiddenNodes'' of
             Inl e \<Rightarrow> (Inl e, r)
           | Inr h \<Rightarrow>
               (case get_prop data ''outputNodes'' of
                  Inl e \<Rightarrow> (Inl e, r)
                | Inr o' \<Rightarrow>
                    (case construct_any i h o' r of
                       (Inl e, r1) \<Rightarrow> (Inl e, r1)
                     | (Inr _, r1) \<Rightarrow>
                         (case (get_prop data ''weightsIH'', get_prop data ''weightsHO'',
                                get_prop data ''biasH'', get_prop data ''biasO'') of
                            (Inr wih, Inr who, Inr bh, Inr bo) \<Rightarrow>
                              (Inr \<lparr>raw_inputNodes = i, raw_hiddenNodes = h, raw_outputNodes = o',
                                    raw_weightsIH = wih, raw_weightsHO = who,
                                    raw_biasH = bh, raw_biasO = bo\<rparr>, r1)
                          | _ \<Rightarrow> (Inl TypeError, r1))))))"

text \<open>
  \<open>createPlayerBird\<close>. \<open>saved\<close> is what \<open>localStorage.getItem\<close> returned (\<open>None\<close> for
  \<open>null\<close>), \<open>parse\<close> is \<open>JSON.parse\<close>; every exception inside the \<open>try\<close> leaves
  \<open>brain\<close> undefined, and \<open>brain || new NeuralNetwork(4, 6, 1)\<close> then builds a fresh
  network.
\<close>

datatype brain_any = Deserialized RawNetwork | Fresh NeuralNetwork

definition createPlayerBird ::
  "(string \<Rightarrow> error + json) \<Rightarrow> string option \<Rightarrow> rng \<Rightarrow> brain_any AIBird \<times> rng" where
  "createPlayerBird parse saved r =
     (let (loaded, r1) =
        (case saved of
           None \<Rightarrow> (None, r)
         | Some s \<Rightarrow>
             if s = [] then (None, r)
             else
               (case parse s of
                  Inl e \<Rightarrow> (None, r)
                | Inr data \<Rightarrow>
                    (case fromJSON_any data r of
                       (Inl e, r') \<Rightarrow> (None, r')
                     | (Inr nn, r') \<Rightarrow> (Some nn, r'))))
      in case loaded of
           Some nn \<Rightarrow> (spawn_bird (Deserialized nn) (Hex ''#FACC15''), r1)
         | None \<Rightarrow>
             (let (nn, r2) = new_NeuralNetwork 4 6 1 r1
              in (spawn_bird (Fresh nn) (Hex ''#FACC15''), r2)))"

section \<open>Ten steps of free fall\<close>

text \<open>
  The bird spawned with network \<open>br\<close> and colour \<open>c\<close> after \<open>k\<close> steps in which it
  is only moved: no decision, no jump, and none of the collision tests fires.
\<close>

fun fallen :: "NeuralNetwork \<Rightarrow> color \<Rightarrow> nat \<Rightarrow> bird" where
  "fallen br c 0 = spawn_bird br c"
| "fallen br c (Suc k) = physics (accrue (fallen br c k))"

text \<open>
  The two statements of "Physics" in exact arithmetic, with the decimal \<open>0.6\<close> for the
  gravity: the velocity and \<open>y\<close> after \<open>n\<close> steps from the spawn point, as a reader
  of the configuration computes them.
\<close>

fun exact_fall :: "nat \<Rightarrow> real \<times> real" where
  "exact_fall 0 = (0, 300)"
| "exact_fall (Suc n) = (fst (exact_fall n) + 0.6, snd (exact_fall n) + (fst (exact_fall n) + 0.6))"

section \<open>Properties of the rounding\<close>

lemmas config_defs =
  GRAVITY_def JUMP_STRENGTH_def PIPE_SPEED_def PIPE_SPAWN_RATE_def PIPE_WIDTH_def
  PIPE_GAP_def BIRD_RADIUS_def GROUND_HEIGHT_def CANVAS_WIDTH_def CANVAS_HEIGHT_def
  AI_POPULATION_def AI_MUTATION_RATE_def

text \<open>The exponent found by \<open>binade\<close>.\<close>

lemma binade_ge0: "1 \<le> x \<Longrightarrow> 0 \<le> binade n x"
proof (induction n arbitrary: x)
  case 0
  then show ?case by simp
next
  case (Suc n)
  show ?case
  proof (cases "2 \<le> x")
    case True
    then have "0 \<le> binade n (x / 2)" by (intro Suc.IH) simp
    then show ?thesis using True by simp
  next
    case False
    then show ?thesis using Suc.prems by simp
  qed
qed

lemma binade_le0: "x < 2 \<Longrightarrow> binade n x \<le> 0"
proof (induction n arbitrary: x)
  case 0
  then show ?case by simp
next
  case (Suc n)
  show ?case
  proof (cases "x < 1")
    case True
    then have "binade n (2 * x) \<le> 0" by (intro Suc.IH) simp
    then show ?thesis using True by simp
  next
    case False
    then show ?thesis using Suc.prems by simp
  qed
qed

lemma binade_mono: "x \<le> y \<Longrightarrow> binade n x \<le> binade n y"
proof (induction n arbitrary: x y)
  case 0
  then show ?case by simp
next
  case (Suc n)
  consider "x < 1" "y < 1" | "x < 1" "1 \<le> y" "y < 2" | "x < 1" "2 \<le> y"
    | "1 \<le> x" "y < 2" | "1 \<le> x" "x < 2" "2 \<le> y" | "2 \<le> x"
    by atomize_elim linarith
  then show ?case
  proof cases
    case 1
    then have "binade n (2 * x) \<le> binade n (2 * y)" using Suc.prems by (intro Suc.IH) simp
    then show ?thesis using 1 by simp
  next
    case 2
    have "binade n (2 * x) \<le> 0" using 2 by (intro binade_le0) simp
    then show ?thesis using 2 by simp
  next
    case 3
    have "binade n (2 * x) \<le> 0" using 3 by (intro binade_le0) simp
    moreover have "0 \<le> binade n (y / 2)" using 3 by (intro binade_ge0) simp
    ultimately show ?thesis using 3 by simp
  next
    case 4
    then show ?thesis using Suc.prems by simp
  next
    case 5
    have "0 \<le> binade n (y / 2)" using 5 by (intro binade_ge0) simp
    then show ?thesis using 5 by simp
  next
    case 6
    then have "binade n (x / 2) \<le> binade n (y / 2)" using Suc.prems by (intro Suc.IH) simp
    then show ?thesis using 6 Suc.prems by simp
  qed
qed

lemma binade_range: "- int n \<le> binade n x \<and> binade n x \<le> int n"
proof (induction n arbitrary: x)
  case 0
  then show ?case by simp
next
  case (Suc n)
  from Suc.IH [of "2 * x"] Suc.IH [of "x / 2"] show ?case by simp
qed

lemma two_powi_Suc: "(2::real) powi (e + 1) = 2 * 2 powi e"
  by (simp add: power_int_add)

lemma two_powi_pred: "(2::real) powi (e - 1) = 2 powi e / 2"
  by (simp add: power_int_diff)

lemma binade_lower_ge1: "1 \<le> x \<Longrightarrow> 2 powi (binade n x) \<le> x"
proof (induction n arbitrary: x)
  case 0
  then show ?case by simp
next
  case (Suc n)
  show ?case
  proof (cases "2 \<le> x")
    case True
    then have "2 powi (binade n (x / 2)) \<le> x / 2" by (intro Suc.IH) simp
    then show ?thesis using True by (simp add: two_powi_Suc)
  next
    case False
    then show ?thesis using Suc.prems by simp
  qed
qed

lemma binade_upper_lt2: "0 < x \<Longrightarrow> x < 2 \<Longrightarrow> x < 2 powi (binade n x + 1)"
proof (induction n arbitrary: x)
  case 0
  then show ?case by simp
next
  case (Suc n)
  show ?case
  proof (cases "x < 1")
    case True
    then have "2 * x < 2 powi (binade n (2 * x) + 1)" using Suc.prems by (intro Suc.IH) simp_all
    then show ?thesis using True by (simp add: two_powi_Suc)
  next
    case False
    then show ?thesis using Suc.prems by simp
  qed
qed

lemma binade_lower: "0 < x \<Longrightarrow> - int n < binade n x \<Longrightarrow> 2 powi (binade n x) \<le> x"
proof (induction n arbitrary: x)
  case 0
  then show ?case by simp
next
  case (Suc n)
  show ?case
  proof (cases "x < 1")
    case True
    then have e: "binade (Suc n) x = binade n (2 * x) - 1" by simp
    with Suc.prems have "- int n < binade n (2 * x)" by simp
    then have "2 powi (binade n (2 * x)) \<le> 2 * x" using Suc.prems by (intro Suc.IH) simp_all
    then show ?thesis unfolding e by (simp add: two_powi_pred)
  next
    case False
    then have "1 \<le> x" by simp
    then show ?thesis by (rule binade_lower_ge1)
  qed
qed

lemma binade_upper: "0 < x \<Longrightarrow> binade n x < int n \<Longrightarrow> x < 2 powi (binade n x + 1)"
proof (induction n arbitrary: x)
  case 0
  then show ?case by simp
next
  case (Suc n)
  show ?case
  proof (cases "2 \<le> x")
    case True
    then have e: "binade (Suc n) x = binade n (x / 2) + 1" by simp
    with Suc.prems have "binade n (x / 2) < int n" by simp
    then have "x / 2 < 2 powi (binade n (x / 2) + 1)" using Suc.prems by (intro Suc.IH) simp_all
    then show ?thesis unfolding e by (simp add: power_int_add)
  next
    case False
    then have "x < 2" by simp
    with Suc.prems(1) show ?thesis by (rule binade_upper_lt2)
  qed
qed

lemma scale_up: "(2::real) powi e * 2 powi (int k - e) = real_of_int (2 ^ k)"
proof -
  have "(2::real) powi e * 2 powi (int k - e) = 2 powi (e + (int k - e))"
    by (rule power_int_add [symmetric]) simp
  then show ?thesis by (simp add: power_int_of_nat)
qed

lemma scale_back: "real_of_int (2 ^ k) / 2 powi (int k - e) = 2 powi e"
proof -
  have "(2::real) powi (int k) / 2 powi (int k - e) = 2 powi (int k - (int k - e))"
    by (rule power_int_diff [symmetric]) simp
  then show ?thesis by (simp add: power_int_of_nat)
qed

lemma ulp_inverse_powi: "ulp_inverse e = 2 powi (52 - e)"
  by (auto simp: ulp_inverse_def power_int_def power_inverse [symmetric] field_simps)

lemma ulp_inverse_pos: "0 < ulp_inverse e"
  by (simp add: ulp_inverse_powi zero_less_power_int)

lemma round_half_even_of_int: "round_half_even (real_of_int n) = n"
  by (simp add: round_half_even_def)

lemma round_half_even_mono: "p \<le> q \<Longrightarrow> round_half_even p \<le> round_half_even q"
proof -
  assume pq: "p \<le> q"
  then have f: "\<lfloor>p\<rfloor> \<le> \<lfloor>q\<rfloor>" by (rule floor_mono)
  have bp: "round_half_even p \<le> \<lfloor>p\<rfloor> + 1" and bq: "\<lfloor>q\<rfloor> \<le> round_half_even q"
    by (simp_all add: round_half_even_def Let_def)
  show ?thesis
  proof (cases "\<lfloor>p\<rfloor> = \<lfloor>q\<rfloor>")
    case True
    with pq show ?thesis by (auto simp: round_half_even_def Let_def)
  next
    case False
    with f have "\<lfloor>p\<rfloor> + 1 \<le> \<lfloor>q\<rfloor>" by simp
    with bp bq show ?thesis by linarith
  qed
qed

lemma fl64_0: "fl64 0 = 0"
  by (simp add: fl64_def)

lemma fl64_minus: "fl64 (- x) = - fl64 x"
  by (simp add: fl64_def Let_def)

lemma fl64_pos: "0 < x \<Longrightarrow>
  fl64 x = real_of_int (round_half_even (x * ulp_inverse (binade 1100 x))) / ulp_inverse (binade 1100 x)"
  by (simp add: fl64_def Let_def)

lemma fl64_nonneg: "0 \<le> x \<Longrightarrow> 0 \<le> fl64 x"
proof (cases "x = 0")
  case True
  then show ?thesis by (simp add: fl64_0)
next
  case False
  assume "0 \<le> x"
  with False have x: "0 < x" by simp
  have "round_half_even 0 \<le> round_half_even (x * ulp_inverse (binade 1100 x))"
    using x ulp_inverse_pos [of "binade 1100 x"] by (intro round_half_even_mono) simp
  then have "0 \<le> round_half_even (x * ulp_inverse (binade 1100 x))"
    using round_half_even_of_int [of 0] by simp
  then show ?thesis
    using x ulp_inverse_pos [of "binade 1100 x"] by (simp add: fl64_pos)
qed

lemma fl64_nonpos: "x \<le> 0 \<Longrightarrow> fl64 x \<le> 0"
  using fl64_nonneg [of "- x"] by (simp add: fl64_minus)

lemma fl64_pos_upper:
  assumes "0 < x" "binade 1100 x < 1100"
  shows "fl64 x \<le> 2 powi (binade 1100 x + 1)"
proof -
  let ?e = "binade 1100 x"
  let ?s = "(2::real) powi (52 - ?e)"
  have s: "0 < ?s" by (simp add: zero_less_power_int)
  have s': "?s = 2 powi (int 53 - (?e + 1))" by simp
  have "x < 2 powi (?e + 1)" using assms binade_upper [of x 1100] by simp
  then have "x * ?s \<le> 2 powi (?e + 1) * ?s" using s by simp
  also have "\<dots> = real_of_int (2 ^ 53)" unfolding s' by (rule scale_up)
  finally have "round_half_even (x * ?s) \<le> round_half_even (real_of_int (2 ^ 53))"
    by (rule round_half_even_mono)
  then have "real_of_int (round_half_even (x * ?s)) \<le> real_of_int (2 ^ 53)"
    unfolding round_half_even_of_int by linarith
  then have "real_of_int (round_half_even (x * ?s)) / ?s \<le> real_of_int (2 ^ 53) / ?s"
    using s by (rule divide_right_mono [OF _ less_imp_le])
  also have "\<dots> = 2 powi (?e + 1)" unfolding s' by (rule scale_back)
  finally show ?thesis using assms(1) by (simp add: fl64_pos ulp_inverse_powi)
qed

lemma fl64_pos_lower:
  assumes "0 < x" "- 1100 < binade 1100 x"
  shows "2 powi (binade 1100 x) \<le> fl64 x"
proof -
  let ?e = "binade 1100 x"
  let ?s = "(2::real) powi (52 - ?e)"
  have s: "0 < ?s" by (simp add: zero_less_power_int)
  have s': "?s = 2 powi (int 52 - ?e)" by simp
  have "2 powi ?e \<le> x" using assms binade_lower [of x 1100] by simp
  then have "2 powi ?e * ?s \<le> x * ?s" using s by simp
  moreover have "2 powi ?e * ?s = real_of_int (2 ^ 52)" unfolding s' by (rule scale_up)
  ultimately have "real_of_int (2 ^ 52) \<le> x * ?s" by simp
  then have "round_half_even (real_of_int (2 ^ 52)) \<le> round_half_even (x * ?s)"
    by (rule round_half_even_mono)
  then have "real_of_int (2 ^ 52) \<le> real_of_int (round_half_even (x * ?s))"
    unfolding round_half_even_of_int by linarith
  then have "real_of_int (2 ^ 52) / ?s \<le> real_of_int (round_half_even (x * ?s)) / ?s"
    using s by (rule divide_right_mono [OF _ less_imp_le])
  moreover have "real_of_int (2 ^ 52) / ?s = 2 powi ?e" unfolding s' by (rule scale_back)
  ultimately show ?thesis using assms(1) by (simp add: fl64_pos ulp_inverse_powi)
qed

lemma fl64_mono_pos:
  assumes "0 < x" "x \<le> y"
  shows "fl64 x \<le> fl64 y"
proof -
  have y: "0 < y" using assms by simp
  have e: "binade 1100 x \<le> binade 1100 y" using assms(2) by (rule binade_mono)
  show ?thesis
  proof (cases "binade 1100 x = binade 1100 y")
    case True
    let ?s = "ulp_inverse (binade 1100 y)"
    have "x * ?s \<le> y * ?s" using assms(2) ulp_inverse_pos [of "binade 1100 y"] by simp
    then have "round_half_even (x * ?s) \<le> round_half_even (y * ?s)" by (rule round_half_even_mono)
    then have "real_of_int (round_half_even (x * ?s)) / ?s \<le> real_of_int (round_half_even (y * ?s)) / ?s"
      using ulp_inverse_pos [of "binade 1100 y"] by (simp add: divide_right_mono)
    then show ?thesis using assms(1) y True by (simp add: fl64_pos)
  next
    case False
    with e have lt: "binade 1100 x < binade 1100 y" by simp
    have "binade 1100 x < 1100" "- 1100 < binade 1100 y"
      using lt binade_range [of 1100 x] binade_range [of 1100 y] by simp_all
    then have "fl64 x \<le> 2 powi (binade 1100 x + 1)" "2 powi (binade 1100 y) \<le> fl64 y"
      using assms(1) y by (simp_all add: fl64_pos_upper fl64_pos_lower)
    moreover have "(2::real) powi (binade 1100 x + 1) \<le> 2 powi (binade 1100 y)"
      using lt by (intro power_int_increasing) simp_all
    ultimately show ?thesis by linarith
  qed
qed

lemma fl64_mono: "x \<le> y \<Longrightarrow> fl64 x \<le> fl64 y"
proof -
  assume xy: "x \<le> y"
  consider "0 < x" | "x \<le> 0" "0 \<le> y" | "y < 0" by atomize_elim linarith
  then show ?thesis
  proof cases
    case 1
    then show ?thesis using xy by (rule fl64_mono_pos)
  next
    case 2
    then show ?thesis using fl64_nonpos [of x] fl64_nonneg [of y] by simp
  next
    case 3
    then have "fl64 (- y) \<le> fl64 (- x)" using xy by (intro fl64_mono_pos) simp_all
    then show ?thesis by (simp add: fl64_minus)
  qed
qed


lemma binade_unique:
  assumes "2 powi e \<le> x" "x < 2 powi (e + 1)" "- int n < e" "e < int n"
  shows "binade n x = e"
proof -
  have x: "0 < x" using assms(1) zero_less_power_int [of "2::real" e] by linarith
  have r: "- int n \<le> binade n x" "binade n x \<le> int n" using binade_range [of n x] by simp_all
  have "\<not> binade n x < e"
  proof
    assume lt: "binade n x < e"
    then have "binade n x < int n" using assms(4) by simp
    then have "x < 2 powi (binade n x + 1)" using x by (intro binade_upper)
    moreover have "(2::real) powi (binade n x + 1) \<le> 2 powi e"
      using lt by (intro power_int_increasing) simp_all
    ultimately show False using assms(1) by linarith
  qed
  moreover have "\<not> e < binade n x"
  proof
    assume lt: "e < binade n x"
    then have "- int n < binade n x" using assms(3) by simp
    then have "2 powi (binade n x) \<le> x" using x by (intro binade_lower)
    moreover have "(2::real) powi (e + 1) \<le> 2 powi (binade n x)"
      using lt by (intro power_int_increasing) simp_all
    ultimately show False using assms(2) by linarith
  qed
  ultimately show ?thesis by simp
qed

lemma fl64_in_binade:
  assumes "2 powi e \<le> x" "x < 2 powi (e + 1)" "- 1100 < e" "e < 1100"
  shows "fl64 x = real_of_int (round_half_even (x * ulp_inverse e)) / ulp_inverse e"
proof -
  have x: "0 < x" using assms(1) zero_less_power_int [of "2::real" e] by linarith
  have "binade 1100 x = e" using assms by (intro binade_unique) simp_all
  then show ?thesis using x by (simp add: fl64_pos)
qed

lemma round_half_even_divide:
  assumes "0 < b"
  shows "round_half_even (real_of_int a / real_of_int b) =
     (if 2 * (a mod b) < b then a div b
      else if b < 2 * (a mod b) then a div b + 1
      else if even (a div b) then a div b else a div b + 1)"
proof -
  have f: "\<lfloor>real_of_int a / real_of_int b\<rfloor> = a div b"
    by (simp add: floor_divide_of_int_eq)
  have "real_of_int a = real_of_int (a div b) * real_of_int b + real_of_int (a mod b)"
    by (metis div_mult_mod_eq of_int_add of_int_mult)
  then have d: "real_of_int a / real_of_int b - real_of_int (a div b) = real_of_int (a mod b) / real_of_int b"
    using assms by (simp add: field_simps)
  have c1: "(real_of_int (a mod b) / real_of_int b < 1 / 2) = (2 * (a mod b) < b)"
    using assms by (simp add: field_simps) linarith
  have c2: "(1 / 2 < real_of_int (a mod b) / real_of_int b) = (b < 2 * (a mod b))"
    using assms by (simp add: field_simps) linarith
  show ?thesis
    unfolding round_half_even_def Let_def f d c1 c2 by simp
qed

lemma round_half_even_numeral_divide:
  "round_half_even (numeral a / numeral b) =
     (if 2 * (numeral a mod numeral b) < (numeral b::int) then numeral a div numeral b
      else if (numeral b::int) < 2 * (numeral a mod numeral b) then numeral a div numeral b + 1
      else if even (numeral a div numeral b :: int) then numeral a div numeral b
      else numeral a div numeral b + 1)"
  using round_half_even_divide [of "numeral b" "numeral a"] by simp

lemma round_half_even_numeral: "round_half_even (numeral a) = numeral a"
  using round_half_even_of_int [of "numeral a"] by simp

lemma round_half_even_0: "round_half_even 0 = 0"
  using round_half_even_of_int [of 0] by simp

lemma round_half_even_1: "round_half_even 1 = 1"
  using round_half_even_of_int [of 1] by simp

lemma round_half_even_divmod:
  "(numeral a :: int) div numeral b = q \<Longrightarrow> (numeral a :: int) mod numeral b = r \<Longrightarrow>
   round_half_even (numeral a / numeral b) =
     (if 2 * r < numeral b then q else if numeral b < 2 * r then q + 1
      else if even q then q else q + 1)"
  using round_half_even_numeral_divide [of a b] by simp

lemmas round_half_even_eval = round_half_even_divmod round_half_even_numeral
  round_half_even_0 round_half_even_1


lemma fl64_at:
  "1 / 1024 \<le> x \<Longrightarrow> x < 1 / 512 \<Longrightarrow>
     fl64 x = real_of_int (round_half_even (x * 4611686018427387904)) / 4611686018427387904"
  "1 / 512 \<le> x \<Longrightarrow> x < 1 / 256 \<Longrightarrow>
     fl64 x = real_of_int (round_half_even (x * 2305843009213693952)) / 2305843009213693952"
  "1 / 256 \<le> x \<Longrightarrow> x < 1 / 128 \<Longrightarrow>
     fl64 x = real_of_int (round_half_even (x * 1152921504606846976)) / 1152921504606846976"
  "1 / 128 \<le> x \<Longrightarrow> x < 1 / 64 \<Longrightarrow>
     fl64 x = real_of_int (round_half_even (x * 576460752303423488)) / 576460752303423488"
  "1 / 64 \<le> x \<Longrightarrow> x < 1 / 32 \<Longrightarrow>
     fl64 x = real_of_int (round_half_even (x * 288230376151711744)) / 288230376151711744"
  "1 / 32 \<le> x \<Longrightarrow> x < 1 / 16 \<Longrightarrow>
     fl64 x = real_of_int (round_half_even (x * 144115188075855872)) / 144115188075855872"
  "1 / 16 \<le> x \<Longrightarrow> x < 1 / 8 \<Longrightarrow>
     fl64 x = real_of_int (round_half_even (x * 72057594037927936)) / 72057594037927936"
  "1 / 8 \<le> x \<Longrightarrow> x < 1 / 4 \<Longrightarrow>
     fl64 x = real_of_int (round_half_even (x * 36028797018963968)) / 36028797018963968"
  "1 / 4 \<le> x \<Longrightarrow> x < 1 / 2 \<Longrightarrow>
     fl64 x = real_of_int (round_half_even (x * 18014398509481984)) / 18014398509481984"
  "1 / 2 \<le> x \<Longrightarrow> x < 1 \<Longrightarrow>
     fl64 x = real_of_int (round_half_even (x * 9007199254740992)) / 9007199254740992"
  "1 \<le> x \<Longrightarrow> x < 2 \<Longrightarrow>
     fl64 x = real_of_int (round_half_even (x * 4503599627370496)) / 4503599627370496"
  "2 \<le> x \<Longrightarrow> x < 4 \<Longrightarrow>
     fl64 x = real_of_int (round_half_even (x * 2251799813685248)) / 2251799813685248"
  "4 \<le> x \<Longrightarrow> x < 8 \<Longrightarrow>
     fl64 x = real_of_int (round_half_even (x * 1125899906842624)) / 1125899906842624"
  "8 \<le> x \<Longrightarrow> x < 16 \<Longrightarrow>
     fl64 x = real_of_int (round_half_even (x * 562949953421312)) / 562949953421312"
  "16 \<le> x \<Longrightarrow> x < 32 \<Longrightarrow>
     fl64 x = real_of_int (round_half_even (x * 281474976710656)) / 281474976710656"
  "32 \<le> x \<Longrightarrow> x < 64 \<Longrightarrow>
     fl64 x = real_of_int (round_half_even (x * 140737488355328)) / 140737488355328"
  "64 \<le> x \<Longrightarrow> x < 128 \<Longrightarrow>
     fl64 x = real_of_int (round_half_even (x * 70368744177664)) / 70368744177664"
  "128 \<le> x \<Longrightarrow> x < 256 \<Longrightarrow>
     fl64 x = real_of_int (round_half_even (x * 35184372088832)) / 35184372088832"
  "256 \<le> x \<Longrightarrow> x < 512 \<Longrightarrow>
     fl64 x = real_of_int (round_half_even (x * 17592186044416)) / 17592186044416"
  "512 \<le> x \<Longrightarrow> x < 1024 \<Longrightarrow>
     fl64 x = real_of_int (round_half_even (x * 8796093022208)) / 8796093022208"
  by (simp_all add: fl64_in_binade [of "- 10"]
    fl64_in_binade [of "- 9"]
    fl64_in_binade [of "- 8"]
    fl64_in_binade [of "- 7"]
    fl64_in_binade [of "- 6"]
    fl64_in_binade [of "- 5"]
    fl64_in_binade [of "- 4"]
    fl64_in_binade [of "- 3"]
    fl64_in_binade [of "- 2"]
    fl64_in_binade [of "- 1"]
    fl64_in_binade [of "0"]
    fl64_in_binade [of "1"]
    fl64_in_binade [of "2"]
    fl64_in_binade [of "3"]
    fl64_in_binade [of "4"]
    fl64_in_binade [of "5"]
    fl64_in_binade [of "6"]
    fl64_in_binade [of "7"]
    fl64_in_binade [of "8"]
    fl64_in_binade [of "9"] ulp_inverse_def)



lemma fl64_tree:
  "1 / 1024 \<le> x \<Longrightarrow> x < 1024 \<Longrightarrow>
   fl64 x =
     (if x < 1 then
       (if x < 1 / 32 then
         (if x < 1 / 256 then
           (if x < 1 / 512 then
             real_of_int (round_half_even (x * 4611686018427387904)) / 4611686018427387904
            else
             real_of_int (round_half_even (x * 2305843009213693952)) / 2305843009213693952)
          else
           (if x < 1 / 128 then
             real_of_int (round_half_even (x * 1152921504606846976)) / 1152921504606846976
            else
             (if x < 1 / 64 then
               real_of_int (round_half_even (x * 576460752303423488)) / 576460752303423488
              else
               real_of_int (round_half_even (x * 288230376151711744)) / 288230376151711744)))
        else
         (if x < 1 / 8 then
           (if x < 1 / 16 then
             real_of_int (round_half_even (x * 144115188075855872)) / 144115188075855872
            else
             real_of_int (round_half_even (x * 72057594037927936)) / 72057594037927936)
          else
           (if x < 1 / 4 then
             real_of_int (round_half_even (x * 36028797018963968)) / 36028797018963968
            else
             (if x < 1 / 2 then
               real_of_int (round_half_even (x * 18014398509481984)) / 18014398509481984
              else
               real_of_int (round_half_even (x * 9007199254740992)) / 9007199254740992))))
      else
       (if x < 32 then
         (if x < 4 then
           (if x < 2 then
             real_of_int (round_half_even (x * 4503599627370496)) / 4503599627370496
            else
             real_of_int (round_half_even (x * 2251799813685248)) / 2251799813685248)
          else
           (if x < 8 then
             real_of_int (round_half_even (x * 1125899906842624)) / 1125899906842624
            else
             (if x < 16 then
               real_of_int (round_half_even (x * 562949953421312)) / 562949953421312
              else
               real_of_int (round_half_even (x * 281474976710656)) / 281474976710656)))
        else
         (if x < 128 then
           (if x < 64 then
             real_of_int (round_half_even (x * 140737488355328)) / 140737488355328
            else
             real_of_int (round_half_even (x * 70368744177664)) / 70368744177664)
          else
           (if x < 256 then
             real_of_int (round_half_even (x * 35184372088832)) / 35184372088832
            else
             (if x < 512 then
               real_of_int (round_half_even (x * 17592186044416)) / 17592186044416
              else
               real_of_int (round_half_even (x * 8796093022208)) / 8796093022208)))))"
  by (simp add: fl64_at)



text \<open>
  Rounding is exact on the integers below \<open>2^53\<close>, and on the sums of the spawn
  \<open>x\<close> with the radius.
\<close>

lemma fl64_int_pos:
  assumes "0 < n" "n < 2 ^ 53"
  shows "fl64 (real_of_int n) = real_of_int n"
proof -
  let ?x = "real_of_int n"
  let ?e = "binade 1100 ?x"
  have x: "0 < ?x" "1 \<le> ?x" using assms(1) by simp_all
  have e0: "0 \<le> ?e" using x(2) by (rule binade_ge0)
  have e52: "?e \<le> 52"
  proof (rule ccontr)
    assume "\<not> ?e \<le> 52"
    then have e53: "53 \<le> ?e" by simp
    then have "2 powi ?e \<le> ?x" using x(1) by (intro binade_lower) simp_all
    moreover have "(2::real) powi 53 \<le> 2 powi ?e" using e53 by (intro power_int_increasing) simp_all
    ultimately have "(2::real) ^ 53 \<le> real_of_int n" by simp
    then have "real_of_int (2 ^ 53) \<le> real_of_int n" by simp
    then have "(2::int) ^ 53 \<le> n" by (simp only: of_int_le_iff)
    with assms(2) show False by simp
  qed
  have s: "ulp_inverse ?e = real_of_int (2 ^ nat (52 - ?e))"
    using e52 by (simp add: ulp_inverse_def)
  have "?x * ulp_inverse ?e = real_of_int (n * 2 ^ nat (52 - ?e))"
    unfolding s by simp
  then have "round_half_even (?x * ulp_inverse ?e) = n * 2 ^ nat (52 - ?e)"
    by (simp only: round_half_even_of_int)
  then have "fl64 ?x = real_of_int (n * 2 ^ nat (52 - ?e)) / real_of_int (2 ^ nat (52 - ?e))"
    using x(1) by (simp add: fl64_pos s)
  then show ?thesis by simp
qed

lemma fl64_int: "\<bar>n\<bar> < 2 ^ 53 \<Longrightarrow> fl64 (real_of_int n) = real_of_int n"
proof -
  assume a: "\<bar>n\<bar> < 2 ^ 53"
  consider "n = 0" | "0 < n" | "n < 0" by atomize_elim linarith
  then show ?thesis
  proof cases
    case 1
    then show ?thesis by (simp add: fl64_0)
  next
    case 2
    then show ?thesis using a by (intro fl64_int_pos) simp_all
  next
    case 3
    then have "fl64 (real_of_int (- n)) = real_of_int (- n)" using a by (intro fl64_int_pos) simp_all
    then show ?thesis by (simp add: fl64_minus)
  qed
qed

lemma fl64_numeral [simp]:
  "(numeral n :: int) < 9007199254740992 \<Longrightarrow> fl64 (numeral n) = numeral n"
  using fl64_int [of "numeral n"] by simp

lemma fl64_1 [simp]: "fl64 1 = 1"
  using fl64_int [of 1] by simp

lemmas fl64_eval = fl64_tree fl64_minus fl64_0 round_half_even_eval

lemma spawn_x_exact:
  "fl64 (bird_x (spawn_bird b c) + BIRD_RADIUS) = bird_x (spawn_bird b c) + BIRD_RADIUS"
  "fl64 (bird_x (spawn_bird b c) - BIRD_RADIUS) = bird_x (spawn_bird b c) - BIRD_RADIUS"
  by (simp_all add: spawn_bird_def config_defs fl64_eval)

lemma spawn_x_sums:
  "fl64 (5254199565265579 / 35184372088832) = 5254199565265579 / 35184372088832"
  "fl64 (4128299658422955 / 35184372088832) = 4128299658422955 / 35184372088832"
  by (simp_all add: fl64_eval)

lemma spawn_values:
  "bird_x (spawn_bird b c) = 4691249611844267 / 35184372088832"
  "bird_y (spawn_bird b c) = 300"
  "GRAVITY = 5404319552844595 / 9007199254740992"
  "AI_MUTATION_RATE = 3602879701896397 / 36028797018963968"
  "velocity (spawn_bird b c) = 0"
  by (simp_all add: spawn_bird_def config_defs fl64_eval)

section \<open>Properties of the neural network\<close>

lemma new_NeuralNetwork_dims:
  "inputNodes (fst (new_NeuralNetwork i h o' r)) = i \<and>
   hiddenNodes (fst (new_NeuralNetwork i h o' r)) = h \<and>
   outputNodes (fst (new_NeuralNetwork i h o' r)) = o'"
  by (simp add: new_NeuralNetwork_def split: prod.splits)

lemma fromJSON_toJSON: "fst (fromJSON (toJSON c) r) = c"
proof -
  obtain nn r1 where n: "new_NeuralNetwork (inputNodes c) (hiddenNodes c) (outputNodes c) r = (nn, r1)"
    by (cases "new_NeuralNetwork (inputNodes c) (hiddenNodes c) (outputNodes c) r")
  have "inputNodes nn = inputNodes c" "hiddenNodes nn = hiddenNodes c"
       "outputNodes nn = outputNodes c" "NeuralNetwork.more nn = NeuralNetwork.more c"
    using new_NeuralNetwork_dims [of "inputNodes c" "hiddenNodes c" "outputNodes c" r] n
    by simp_all
  then show ?thesis
    by (simp add: fromJSON_def toJSON_def n)
qed

text \<open>
  Claim C4. For every controller \<open>c\<close> and every input vector \<open>x\<close> (of four elements
  or of any other length), whatever random numbers the constructor inside
  \<open>fromJSON\<close> draws, the network rebuilt from \<open>toJSON c\<close> predicts exactly what
  \<open>c\<close> predicts: the same outputs, or the same failure.
\<close>

theorem C4_roundtrip_predict:
  "predict (fst (fromJSON (toJSON c) r)) x = predict c x"
  by (simp add: fromJSON_toJSON)

section \<open>Collision with the pipes\<close>

lemma pipe_collision_fields:
  "bird_x (pipe_collision ps b) = bird_x b \<and> bird_y (pipe_collision ps b) = bird_y b \<and>
   velocity (pipe_collision ps b) = velocity b \<and> score (pipe_collision ps b) = score b \<and>
   distance (pipe_collision ps b) = distance b \<and> fitness (pipe_collision ps b) = fitness b"
  by (induction ps arbitrary: b) auto

lemma collision_tests_alive_irrelevant:
  "overlaps (b\<lparr>alive := a\<rparr>) p = overlaps b p"
  "outside_gap (b\<lparr>alive := a\<rparr>) p = outside_gap b p"
  by (simp_all add: overlaps_def outside_gap_def)

lemma pipe_collision_alive:
  "alive (pipe_collision ps b) = (alive b \<and> (\<forall>p \<in> set ps. \<not> (overlaps b p \<and> outside_gap b p)))"
  by (induction ps arbitrary: b) (auto simp: collision_tests_alive_irrelevant)

lemma within_gap_not_outside:
  assumes "fl64 (topHeight p) = topHeight p"
    "topHeight p \<le> bird_y b - BIRD_RADIUS" "bird_y b + BIRD_RADIUS \<le> topHeight p + PIPE_GAP"
  shows "\<not> outside_gap b p"
proof -
  have "fl64 (topHeight p) \<le> fl64 (bird_y b - BIRD_RADIUS)"
    using assms(2) by (rule fl64_mono)
  moreover have "fl64 (bird_y b + BIRD_RADIUS) \<le> fl64 (topHeight p + PIPE_GAP)"
    using assms(3) by (rule fl64_mono)
  ultimately show ?thesis using assms(1) by (simp add: outside_gap_def)
qed

text \<open>
  Claim C5, as the code has it. The pipe collision loop leaves a bird alive exactly
  when it was alive before the loop and, for every pipe it overlaps horizontally, the
  binary64 values of \<open>y - BIRD_RADIUS\<close> and \<open>y + BIRD_RADIUS\<close> lie within the gap: the
  first is at least \<open>topHeight\<close> and the second at most the binary64 value of
  \<open>topHeight + PIPE_GAP\<close>, the two edges included. So a bird whose vertical extent
  \<open>[y - BIRD_RADIUS, y + BIRD_RADIUS]\<close> lies within the gap
  \<open>[topHeight, topHeight + PIPE_GAP]\<close> of every pipe it overlaps, touching an edge or
  not, is never killed by the loop (\<open>topHeight\<close> being a binary64 number, as every
  number of the program is); and a bird that the loop kills overlaps a pipe whose gap
  its extent leaves.
\<close>

theorem C5_pipe_collision:
  "(alive (pipe_collision ps b) \<longleftrightarrow>
      alive b \<and>
      (\<forall>p \<in> set ps.
         fl64 (bird_x b + BIRD_RADIUS) > pipe_x p \<and>
         fl64 (bird_x b - BIRD_RADIUS) < fl64 (pipe_x p + PIPE_WIDTH) \<longrightarrow>
         topHeight p \<le> fl64 (bird_y b - BIRD_RADIUS) \<and>
         fl64 (bird_y b + BIRD_RADIUS) \<le> fl64 (topHeight p + PIPE_GAP))) \<and>
   (alive b \<and>
    (\<forall>p \<in> set ps. overlaps b p \<longrightarrow>
       fl64 (topHeight p) = topHeight p \<and>
       topHeight p \<le> bird_y b - BIRD_RADIUS \<and> bird_y b + BIRD_RADIUS \<le> topHeight p + PIPE_GAP)
      \<longrightarrow> alive (pipe_collision ps b)) \<and>
   (alive b \<and> \<not> alive (pipe_collision ps b) \<and> (\<forall>p \<in> set ps. fl64 (topHeight p) = topHeight p)
      \<longrightarrow> (\<exists>p \<in> set ps. overlaps b p \<and>
             (bird_y b - BIRD_RADIUS < topHeight p \<or> topHeight p + PIPE_GAP < bird_y b + BIRD_RADIUS)))"
proof -
  have one: "alive (pipe_collision ps b) \<longleftrightarrow>
      alive b \<and>
      (\<forall>p \<in> set ps.
         fl64 (bird_x b + BIRD_RADIUS) > pipe_x p \<and>
         fl64 (bird_x b - BIRD_RADIUS) < fl64 (pipe_x p + PIPE_WIDTH) \<longrightarrow>
         topHeight p \<le> fl64 (bird_y b - BIRD_RADIUS) \<and>
         fl64 (bird_y b + BIRD_RADIUS) \<le> fl64 (topHeight p + PIPE_GAP))"
    unfolding pipe_collision_alive by (auto simp: overlaps_def outside_gap_def)
  have two: "alive (pipe_collision ps b)"
    if "alive b" "\<forall>p \<in> set ps. overlaps b p \<longrightarrow>
       fl64 (topHeight p) = topHeight p \<and>
       topHeight p \<le> bird_y b - BIRD_RADIUS \<and> bird_y b + BIRD_RADIUS \<le> topHeight p + PIPE_GAP"
    unfolding pipe_collision_alive using that within_gap_not_outside by blast
  have three: "\<exists>p \<in> set ps. overlaps b p \<and>
             (bird_y b - BIRD_RADIUS < topHeight p \<or> topHeight p + PIPE_GAP < bird_y b + BIRD_RADIUS)"
    if "alive b" "\<not> alive (pipe_collision ps b)" "\<forall>p \<in> set ps. fl64 (topHeight p) = topHeight p"
  proof -
    from that(1,2) obtain p where p: "p \<in> set ps" "overlaps b p" "outside_gap b p"
      unfolding pipe_collision_alive by blast
    have "\<not> (topHeight p \<le> bird_y b - BIRD_RADIUS \<and> bird_y b + BIRD_RADIUS \<le> topHeight p + PIPE_GAP)"
      using within_gap_not_outside [of p b] p(1,3) that(3) by blast
    then show ?thesis using p(1,2) by (auto simp: not_le)
  qed
  show ?thesis using one two three by blast
qed

theorem C5_pipe_collision_witness:
  "alive (pipe_collision [pipe_at 120] (fresh_bird\<lparr>bird_y := 241\<rparr>)) \<and>
   \<not> alive (pipe_collision [pipe_at 120] (fresh_bird\<lparr>bird_y := 240\<rparr>)) \<and>
   overlaps (fresh_bird\<lparr>bird_y := 240\<rparr>) (pipe_at 120) \<and>
   bird_y (fresh_bird\<lparr>bird_y := 240\<rparr>) - BIRD_RADIUS < topHeight (pipe_at 120)"
  using C5_pipe_collision [of "[pipe_at 120]" "fresh_bird\<lparr>bird_y := 241\<rparr>"]
        C5_pipe_collision [of "[pipe_at 120]" "fresh_bird\<lparr>bird_y := 240\<rparr>"]
  by (simp add: fresh_bird_def spawn_bird_def pipe_at_def config_defs overlaps_def fl64_eval)

text \<open>
  Claim C5 as stated, over the real numbers, fails at the lower edge of a gap. The bird
  at \<open>y = 242 + 2^-45\<close>, a binary64 number, overlaps the pipe at \<open>x = 76\<close> whose gap is
  \<open>[108, 258]\<close>; its bottom \<open>y + 16 = 258 + 2^-45\<close> is below the lower edge of the gap, so
  its vertical extent falls outside the gap; but the sum \<open>y + 16\<close> is halfway between
  two binary64 numbers and rounds to 258, the test \<open>y + 16 > 258\<close> of the program is
  false, and the bird is not killed.
\<close>

theorem C5_rounded_edge_counterexample:
  "alive (fresh_bird\<lparr>bird_y := 8514618045497345 / 35184372088832\<rparr>) \<and>
   fl64 (8514618045497345 / 35184372088832) = 8514618045497345 / 35184372088832 \<and>
   overlaps (fresh_bird\<lparr>bird_y := 8514618045497345 / 35184372088832\<rparr>)
     \<lparr>pipe_x = 76, topHeight = 108, passed = True\<rparr> \<and>
   bird_x fresh_bird + BIRD_RADIUS > 76 \<and> bird_x fresh_bird - BIRD_RADIUS < 76 + PIPE_WIDTH \<and>
   topHeight \<lparr>pipe_x = 76, topHeight = 108, passed = True\<rparr> + PIPE_GAP
     < bird_y (fresh_bird\<lparr>bird_y := 8514618045497345 / 35184372088832\<rparr>) + BIRD_RADIUS \<and>
   alive (pipe_collision [\<lparr>pipe_x = 76, topHeight = 108, passed = True\<rparr>]
            (fresh_bird\<lparr>bird_y := 8514618045497345 / 35184372088832\<rparr>))"
  by (simp add: fresh_bird_def spawn_bird_def config_defs overlaps_def outside_gap_def fl64_eval)

section \<open>The target of the AI\<close>

lemma closestPipe_found:
  assumes "\<exists>p \<in> set ps. pipe_x p + PIPE_WIDTH > bird_x b0 - BIRD_RADIUS"
  shows "\<exists>i < length ps. closestPipe ps (b0 # bs) = ps ! i \<and>
           pipe_x (ps ! i) + PIPE_WIDTH > bird_x b0 - BIRD_RADIUS \<and>
           (\<forall>j < i. \<not> pipe_x (ps ! j) + PIPE_WIDTH > bird_x b0 - BIRD_RADIUS)"
proof -
  let ?P = "\<lambda>pipe. pipe_x pipe + PIPE_WIDTH > bird_x b0 - BIRD_RADIUS"
  from assms have "find ?P ps \<noteq> None"
    by (auto simp: find_None_iff)
  then obtain p where p: "find ?P ps = Some p" by blast
  then obtain i where "i < length ps" "?P (ps ! i)" "p = ps ! i" "\<forall>j < i. \<not> ?P (ps ! j)"
    unfolding find_Some_iff by blast
  moreover have "closestPipe ps (b0 # bs) = p"
    using p by (simp add: closestPipe_def find_closest_def)
  ultimately show ?thesis by blast
qed

lemma closestPipe_virtual:
  assumes "\<forall>p \<in> set ps. \<not> pipe_x p + PIPE_WIDTH > bird_x b0 - BIRD_RADIUS"
  shows "closestPipe ps (b0 # bs) = \<lparr>pipe_x = 400, topHeight = 225, passed = False\<rparr>"
proof -
  have "find (\<lambda>pipe. pipe_x pipe + PIPE_WIDTH > bird_x b0 - BIRD_RADIUS) ps = None"
    using assms by (simp add: find_None_iff)
  then show ?thesis
    by (simp add: closestPipe_def find_closest_def virtual_pipe_def config_defs)
qed

lemma closestPipe_no_bird:
  "closestPipe ps [] = \<lparr>pipe_x = 400, topHeight = 225, passed = False\<rparr>"
  by (simp add: closestPipe_def find_closest_def virtual_pipe_def config_defs)

lemma length_sense: "length (sense target b) = 4"
  by (simp add: sense_def Let_def)

text \<open>
  Claim C6, as the code has it. The target that \<open>update\<close> computes first is the first
  pipe of the sequence whose right (trailing) edge \<open>x + PIPE_WIDTH\<close> is strictly to the
  right of the first bird's left edge \<open>x - BIRD_RADIUS\<close>; when there is no such pipe,
  or no bird, it is the virtual pipe at \<open>x = 400\<close> with \<open>topHeight = 600 / 2 - 150 / 2 = 225\<close>
  and \<open>passed = false\<close>. The input vector built from the target always has four
  elements.
\<close>

theorem C6_closest_pipe:
  "((\<exists>p \<in> set ps. pipe_x p + PIPE_WIDTH > bird_x b0 - BIRD_RADIUS) \<longrightarrow>
      (\<exists>i < length ps. closestPipe ps (b0 # bs) = ps ! i \<and>
           pipe_x (ps ! i) + PIPE_WIDTH > bird_x b0 - BIRD_RADIUS \<and>
           (\<forall>j < i. \<not> pipe_x (ps ! j) + PIPE_WIDTH > bird_x b0 - BIRD_RADIUS))) \<and>
   ((\<forall>p \<in> set ps. \<not> pipe_x p + PIPE_WIDTH > bird_x b0 - BIRD_RADIUS) \<longrightarrow>
      closestPipe ps (b0 # bs) = \<lparr>pipe_x = 400, topHeight = 225, passed = False\<rparr>) \<and>
   closestPipe ps [] = \<lparr>pipe_x = 400, topHeight = 225, passed = False\<rparr> \<and>
   length (sense (closestPipe ps bs') b) = 4"
  using closestPipe_found [of ps b0 bs] closestPipe_virtual [of ps b0 bs]
  by (simp add: closestPipe_no_bird length_sense)

theorem C6_closest_pipe_witness:
  "closestPipe [pipe_at 60, pipe_at 79, pipe_at 382] [fresh_bird] = pipe_at 79 \<and>
   closestPipe [pipe_at 60] [fresh_bird] = \<lparr>pipe_x = 400, topHeight = 225, passed = False\<rparr>"
  using C6_closest_pipe [of "[pipe_at 60, pipe_at 79, pipe_at 382]" fresh_bird "[]"]
        C6_closest_pipe [of "[pipe_at 60]" fresh_bird "[]"]
  by (simp add: closestPipe_def find_closest_def virtual_pipe_def fresh_bird_def
        spawn_bird_def pipe_at_def config_defs fl64_eval)

text \<open>
  The reading of claim C6 in which the bird's leading edge is its right edge
  \<open>x + BIRD_RADIUS\<close> fails: with pipes at 79 and 382 and the bird at \<open>400 / 3\<close> (rounded), the
  right edge of the first pipe (131) is not ahead of the bird's right edge (149.33),
  that of the second pipe is, and the target is still the first pipe.
\<close>

theorem C6_leading_edge_counterexample:
  "closestPipe [pipe_at 79, pipe_at 382] [fresh_bird] = pipe_at 79 \<and>
   \<not> pipe_x (pipe_at 79) + PIPE_WIDTH > bird_x fresh_bird + BIRD_RADIUS \<and>
   pipe_x (pipe_at 382) + PIPE_WIDTH > bird_x fresh_bird + BIRD_RADIUS"
  by (simp add: closestPipe_def find_closest_def fresh_bird_def spawn_bird_def pipe_at_def
        config_defs fl64_eval)

section \<open>Moving the pipes and scoring\<close>

lemma add_score_0: "add_score 0 b = b"
  by (simp add: add_score_def)

lemma add_score_add: "add_score k (add_score j b) = add_score (j + k) b"
  by (simp add: add_score_def)

lemma score_alive_eq: "score_alive = add_score 1"
  by (rule ext) (simp add: score_alive_def add_score_def)

lemma move_pipe_at_pipes:
  assumes "i < length (pipes g)"
  shows "pipes (move_pipe_at x0 i g) =
           take i (pipes g) @ (case advance_pipe x0 (pipes g ! i) of None \<Rightarrow> [] | Some q \<Rightarrow> [q])
             @ drop (Suc i) (pipes g)"
  using assms
  by (auto simp: move_pipe_at_def advance_pipe_def Let_def upd_conv_take_nth_drop)

lemma move_pipe_at_birds:
  "birds (move_pipe_at x0 i g) =
     map (add_score (if newly_passed x0 (pipes g ! i) then 1 else 0)) (birds g)"
  by (auto simp: move_pipe_at_def newly_passed_def Let_def score_alive_eq add_score_0 map_idI)

lemma move_pipes_effect:
  "n \<le> length (pipes g) \<Longrightarrow>
     pipes (move_pipes x0 n g) = List.map_filter (advance_pipe x0) (take n (pipes g)) @ drop n (pipes g) \<and>
     birds (move_pipes x0 n g) =
       map (add_score (length (filter (newly_passed x0) (take n (pipes g))))) (birds g)"
proof (induction n arbitrary: g)
  case 0
  then show ?case by (simp add: List.map_filter_simps add_score_0 map_idI)
next
  case (Suc i)
  let ?g1 = "move_pipe_at x0 i g"
  let ?ps = "pipes g"
  from Suc.prems have i: "i < length ?ps" by simp
  have p1: "pipes ?g1 = take i ?ps @ (case advance_pipe x0 (?ps ! i) of None \<Rightarrow> [] | Some q \<Rightarrow> [q])
             @ drop (Suc i) ?ps"
    using i by (rule move_pipe_at_pipes)
  have len: "i \<le> length (pipes ?g1)"
    using i by (simp add: p1)
  have tk: "take i (pipes ?g1) = take i ?ps"
    using i by (simp add: p1)
  have dr: "drop i (pipes ?g1) =
      (case advance_pipe x0 (?ps ! i) of None \<Rightarrow> [] | Some q \<Rightarrow> [q]) @ drop (Suc i) ?ps"
    using i by (simp add: p1)
  have ts: "take (Suc i) ?ps = take i ?ps @ [?ps ! i]"
    using i by (simp add: take_Suc_conv_app_nth)
  have mf: "List.map_filter (advance_pipe x0) (take (Suc i) ?ps) =
      List.map_filter (advance_pipe x0) (take i ?ps)
        @ (case advance_pipe x0 (?ps ! i) of None \<Rightarrow> [] | Some q \<Rightarrow> [q])"
    by (simp add: ts List.map_filter_def split: option.splits)
  have cnt: "length (filter (newly_passed x0) (take (Suc i) ?ps)) =
      (if newly_passed x0 (?ps ! i) then 1 else 0) + length (filter (newly_passed x0) (take i ?ps))"
    by (simp add: ts)
  from Suc.IH [OF len]
  have "pipes (move_pipes x0 i ?g1) =
          List.map_filter (advance_pipe x0) (take i ?ps)
            @ (case advance_pipe x0 (?ps ! i) of None \<Rightarrow> [] | Some q \<Rightarrow> [q]) @ drop (Suc i) ?ps"
   and "birds (move_pipes x0 i ?g1) =
          map (add_score (length (filter (newly_passed x0) (take i ?ps)))) (birds ?g1)"
    by (simp_all add: tk dr)
  then show ?case
    by (simp add: mf cnt move_pipe_at_birds add_score_add o_def)
qed

lemma advance_pipe_passed:
  "advance_pipe x0 p = Some q \<Longrightarrow> passed q = (passed p \<or> newly_passed x0 p)"
  by (auto simp: advance_pipe_def newly_passed_def split: if_splits)

section \<open>The vertical band of a live bird\<close>

lemma pipe_collision_y: "bird_y (pipe_collision ps b) = bird_y b"
  by (simp add: pipe_collision_fields)

lemma pipe_collision_alive_imp: "alive (pipe_collision ps b) \<Longrightarrow> alive b"
  by (simp add: pipe_collision_alive)

lemma ground_alive:
  assumes "alive (ground b)"
  shows "alive b \<and> bird_y b + BIRD_RADIUS < CANVAS_HEIGHT - GROUND_HEIGHT"
proof -
  have n: "\<not> CANVAS_HEIGHT - GROUND_HEIGHT \<le> fl64 (bird_y b + BIRD_RADIUS)" and a: "alive b"
    using assms by (simp_all add: ground_def split: if_splits)
  have "\<not> CANVAS_HEIGHT - GROUND_HEIGHT \<le> bird_y b + BIRD_RADIUS"
  proof
    assume "CANVAS_HEIGHT - GROUND_HEIGHT \<le> bird_y b + BIRD_RADIUS"
    then have "fl64 (CANVAS_HEIGHT - GROUND_HEIGHT) \<le> fl64 (bird_y b + BIRD_RADIUS)"
      by (rule fl64_mono)
    moreover have "fl64 (CANVAS_HEIGHT - GROUND_HEIGHT) = CANVAS_HEIGHT - GROUND_HEIGHT"
      by (simp add: config_defs)
    ultimately show False using n by simp
  qed
  with a show ?thesis by simp
qed

lemma ceiling_clamp_lower: "BIRD_RADIUS \<le> bird_y (ceiling_clamp b)"
proof (cases "fl64 (bird_y b - BIRD_RADIUS) \<le> 0")
  case True
  then show ?thesis by (simp add: ceiling_clamp_def)
next
  case False
  have "\<not> bird_y b - BIRD_RADIUS \<le> 0"
    using False fl64_nonpos [of "bird_y b - BIRD_RADIUS"] by blast
  then show ?thesis using False by (simp add: ceiling_clamp_def)
qed

lemma ceiling_clamp_upper:
  "bird_y b + BIRD_RADIUS < CANVAS_HEIGHT - GROUND_HEIGHT \<Longrightarrow>
     bird_y (ceiling_clamp b) + BIRD_RADIUS < CANVAS_HEIGHT - GROUND_HEIGHT"
  by (simp add: ceiling_clamp_def config_defs)

lemma band_after_collision:
  assumes "alive (pipe_collision ps (ceiling_clamp (ground b)))"
  shows "BIRD_RADIUS \<le> bird_y (pipe_collision ps (ceiling_clamp (ground b))) \<and>
         bird_y (pipe_collision ps (ceiling_clamp (ground b))) + BIRD_RADIUS
           < CANVAS_HEIGHT - GROUND_HEIGHT"
proof -
  have a: "alive (ceiling_clamp (ground b))"
    using assms by (rule pipe_collision_alive_imp)
  then have g: "alive (ground b)"
    by (simp add: ceiling_clamp_def split: if_splits)
  then have lt: "bird_y b + BIRD_RADIUS < CANVAS_HEIGHT - GROUND_HEIGHT"
    by (simp add: ground_alive)
  have gy: "bird_y (ground b) = bird_y b"
    by (simp add: ground_def)
  show ?thesis
    using lt gy ceiling_clamp_lower [of "ground b"] ceiling_clamp_upper [of "ground b"]
    by (simp add: pipe_collision_y)
qed

lemma update_bird_band:
  assumes "update_bird mode a target ps b = Inr b'" "alive b'"
  shows "BIRD_RADIUS \<le> bird_y b' \<and> bird_y b' + BIRD_RADIUS < CANVAS_HEIGHT - GROUND_HEIGHT"
proof (cases "alive b")
  case False
  with assms show ?thesis by (simp add: update_bird_def)
next
  case True
  with assms obtain d where "b' = pipe_collision ps (ceiling_clamp (ground (physics d)))"
    by (auto simp: update_bird_def split: sum.splits)
  with assms(2) show ?thesis using band_after_collision by blast
qed

lemma update_birds_all2:
  "update_birds m a t ps bs = Inr bs' \<Longrightarrow>
     list_all2 (\<lambda>b b'. update_bird m a t ps b = Inr b') bs bs'"
  by (induction bs arbitrary: bs') (auto split: sum.splits)

lemma createAIBird_spawn: "\<exists>br c. fst (createAIBird i bb r) = spawn_bird br c"
  by (auto simp: createAIBird_def Let_def split: prod.splits)

lemma createAIBirds_from_spawn:
  "b \<in> set (fst (createAIBirds_from is bb r)) \<Longrightarrow> \<exists>br c. b = spawn_bird br c"
proof (induction "is" arbitrary: r)
  case Nil
  then show ?case by simp
next
  case (Cons i "is")
  obtain b1 r1 where c: "createAIBird i bb r = (b1, r1)"
    by (cases "createAIBird i bb r")
  obtain bs2 r2 where d: "createAIBirds_from is bb r1 = (bs2, r2)"
    by (cases "createAIBirds_from is bb r1")
  from Cons.prems c d have "b = b1 \<or> b \<in> set bs2" by simp
  then show ?case
  proof
    assume "b = b1"
    then show ?thesis using createAIBird_spawn [of i bb r] c by simp
  next
    assume "b \<in> set bs2"
    then show ?thesis using Cons.IH [of r1] d by simp
  qed
qed

lemma birds_spawn_pipe: "birds (spawn_pipe g) = birds g"
  by (simp add: spawn_pipe_def Let_def split: prod.splits)

lemma birds_gameOver: "birds (gameOver m g) = birds g"
  by (simp add: gameOver_def Let_def)

lemma pipe_logic_birds:
  assumes "pipe_logic g = Inr g'"
  shows "birds g' =
     map (add_score (length (filter (newly_passed (bird_x (hd (birds g)))) (pipes (spawn_pipe g)))))
         (birds g)"
proof -
  let ?g1 = "spawn_pipe g"
  from assms obtain b0 bs where b: "birds ?g1 = b0 # bs"
    and g': "g' = move_pipes (bird_x b0) (length (pipes ?g1)) ?g1"
    by (auto simp: pipe_logic_def Let_def split: list.splits)
  have "hd (birds g) = b0" using b by (simp add: birds_spawn_pipe)
  then show ?thesis
    using move_pipes_effect [of "length (pipes ?g1)" ?g1 "bird_x b0"] g'
    by (simp add: birds_spawn_pipe)
qed

lemma nextGeneration_birds:
  assumes "nextGeneration g = Inr g'"
  shows "birds g' = fst (createAIBirds AI_POPULATION
                       (map brain (take bestCount (sort_by_fitness (birds g)))) (rand g))"
  using assms
  by (auto simp: nextGeneration_def Let_def split: prod.splits list.splits if_splits)

lemma update_cases:
  assumes "update mode a g = Inr g'"
  obtains (rollover) bs where
      "update_birds mode a (closestPipe (pipes g) (birds g)) (pipes g) (birds g) = Inr bs"
      "mode = AI" "living bs = 0"
      "nextGeneration (g\<lparr>birds := bs, bestScore := currentGenBestScore (birds g),
                          aliveCount := living bs\<rparr>) = Inr g'"
  | (over) bs where
      "update_birds mode a (closestPipe (pipes g) (birds g)) (pipes g) (birds g) = Inr bs"
      "mode = PLAYER" "bs = [] \<or> \<not> alive (hd bs)"
      "g' = gameOver mode (g\<lparr>birds := bs\<rparr>)"
  | (continue) bs g1 where
      "update_birds mode a (closestPipe (pipes g) (birds g)) (pipes g) (birds g) = Inr bs"
      "birds g1 = bs" "pipes g1 = pipes g" "lastPipeSpawn g1 = lastPipeSpawn g"
      "bs \<noteq> []" "\<exists>b \<in> set bs. alive b"
      "pipe_logic g1 = Inr g'" "gameState g1 = gameState g"
proof -
  from assms obtain bs where
    ub: "update_birds mode a (closestPipe (pipes g) (birds g)) (pipes g) (birds g) = Inr bs"
    by (auto simp: update_def split: sum.splits)
  show thesis
  proof (cases mode)
    case AI
    show ?thesis
    proof (cases "living bs = 0")
      case True
      then show ?thesis using assms ub AI rollover by (simp add: update_def Let_def)
    next
      case False
      then have ex: "\<exists>b \<in> set bs. alive b"
        by (auto simp: living_def filter_empty_conv)
      then have ne: "bs \<noteq> []" by auto
      show ?thesis
        using assms ub AI False ex ne
        by (intro continue [of bs "g\<lparr>birds := bs, bestScore := currentGenBestScore (birds g),
              aliveCount := living bs\<rparr>"]) (simp_all add: update_def Let_def)
    qed
  next
    case PLAYER
    show ?thesis
    proof (cases "bs = [] \<or> \<not> alive (hd bs)")
      case True
      then show ?thesis using assms ub PLAYER
        by (intro over [of bs]) (auto simp: update_def Let_def split: list.splits)
    next
      case False
      then obtain b0 rest where "bs = b0 # rest" "alive b0" by (cases bs) auto
      then show ?thesis using assms ub PLAYER
        by (intro continue [of bs "g\<lparr>birds := bs\<rparr>"]) (auto simp: update_def Let_def)
    qed
  qed
qed

lemma updated_birds_band:
  assumes "update_birds m a t ps bs = Inr bs'" "b \<in> set bs'" "alive b"
  shows "BIRD_RADIUS \<le> bird_y b \<and> bird_y b + BIRD_RADIUS < CANVAS_HEIGHT - GROUND_HEIGHT"
proof -
  from update_birds_all2 [OF assms(1)] assms(2)
  obtain b0 where "update_bird m a t ps b0 = Inr b"
    by (auto simp: list_all2_conv_all_nth in_set_conv_nth)
  then show ?thesis using assms(3) by (rule update_bird_band)
qed

text \<open>
  Claim C10. After every call of \<open>update\<close> that returns, in either mode, every bird
  of the population whose alive flag is set has \<open>BIRD_RADIUS \<le> y\<close> and
  \<open>y + BIRD_RADIUS < CANVAS_HEIGHT - GROUND_HEIGHT\<close>, that is \<open>16 \<le> y < 484\<close>: a bird that
  is alive afterwards either was moved in this step, passed the ground test and went
  through the ceiling clamp, or was spawned by the rollover at \<open>y = 300\<close>.
\<close>

theorem C10_live_band:
  assumes "update mode a g = Inr g'" "b \<in> set (birds g')" "alive b"
  shows "BIRD_RADIUS \<le> bird_y b \<and> bird_y b + BIRD_RADIUS < CANVAS_HEIGHT - GROUND_HEIGHT \<and>
         16 \<le> bird_y b \<and> bird_y b < 484"
proof -
  have "BIRD_RADIUS \<le> bird_y b \<and> bird_y b + BIRD_RADIUS < CANVAS_HEIGHT - GROUND_HEIGHT"
    using assms(1)
  proof (cases rule: update_cases)
  case (rollover bs)
  from nextGeneration_birds [OF rollover(4)] assms(2)
  have "b \<in> set (fst (createAIBirds_from [0..<AI_POPULATION]
            (map brain (take bestCount (sort_by_fitness bs))) (rand g)))"
    by (simp add: createAIBirds_def)
  then obtain br c where "b = spawn_bird br c"
    by (blast dest: createAIBirds_from_spawn)
  then show ?thesis by (simp add: spawn_bird_def config_defs)
next
  case (over bs)
  with assms(2) have "b \<in> set bs" by (simp add: birds_gameOver)
  with over(1) assms(3) show ?thesis by (metis updated_birds_band)
next
  case (continue bs g1)
  from pipe_logic_birds [OF continue(7)] assms(2) continue(2)
  obtain k b1 where b1: "b1 \<in> set bs" "b = add_score k b1" by auto
  then have "alive b1" "bird_y b = bird_y b1"
    using assms(3) by (auto simp: add_score_def split: if_splits)
  with continue(1) b1(1) show ?thesis by (metis updated_birds_band)
qed
  then show ?thesis by (simp add: config_defs)
qed

lemmas step_defs = update_def update_bird_def decide_def accrue_def physics_def ground_def
  ceiling_clamp_def closestPipe_def find_closest_def virtual_pipe_def pipe_logic_def
  spawn_pipe_def gameOver_def living_def Let_def

lemma game0_step:
  "\<exists>g'. update PLAYER False game0 = Inr g' \<and> birds g' \<noteq> [] \<and> alive (hd (birds g')) \<and>
     bird_y (hd (birds g')) = 2644105562475725 / 8796093022208"
  by (simp add: step_defs game0_def fresh_bird_def spawn_bird_def config_defs fl64_eval)

theorem C10_live_band_witness:
  "\<exists>g'. update PLAYER False game0 = Inr g' \<and> hd (birds g') \<in> set (birds g') \<and>
     alive (hd (birds g')) \<and> 16 \<le> bird_y (hd (birds g')) \<and> bird_y (hd (birds g')) < 484"
proof -
  from game0_step obtain g' where
    g': "update PLAYER False game0 = Inr g'" "birds g' \<noteq> []" "alive (hd (birds g'))"
    by blast
  from g'(2) have m: "hd (birds g') \<in> set (birds g')" by simp
  from C10_live_band [OF g'(1) m g'(3)] g' m show ?thesis by blast
qed

section \<open>The next generation\<close>

lemma copy_same: "fst (copy nn r) = nn"
proof -
  obtain n r1 where n: "new_NeuralNetwork (inputNodes nn) (hiddenNodes nn) (outputNodes nn) r = (n, r1)"
    by (cases "new_NeuralNetwork (inputNodes nn) (hiddenNodes nn) (outputNodes nn) r")
  have "inputNodes n = inputNodes nn" "hiddenNodes n = hiddenNodes nn"
       "outputNodes n = outputNodes nn" "NeuralNetwork.more n = NeuralNetwork.more nn"
    using new_NeuralNetwork_dims [of "inputNodes nn" "hiddenNodes nn" "outputNodes nn" r] n
    by simp_all
  then show ?thesis
    by (simp add: copy_def n)
qed

text \<open>Every function that draws random numbers leaves a later part of the sequence.\<close>

lemma later_refl: "later r r"
  unfolding later_def by (rule exI [of _ 0]) simp

lemma later_trans: "later r r1 \<Longrightarrow> later r1 r2 \<Longrightarrow> later r r2"
proof -
  assume "later r r1" "later r1 r2"
  then obtain m k where "r1 = (\<lambda>n. r (m + n))" "r2 = (\<lambda>n. r1 (k + n))"
    unfolding later_def by blast
  then have "r2 = (\<lambda>n. r ((m + k) + n))" by (simp add: add.assoc)
  then show ?thesis unfolding later_def by blast
qed

lemma later_random: "later r (snd (random r))"
  unfolding later_def random_def by (rule exI [of _ 1]) simp

lemma later_random_row: "later r (snd (random_row n r))"
proof (induction n arbitrary: r)
  case 0
  then show ?case by (simp add: later_refl)
next
  case (Suc n)
  have "later (snd (random r)) (snd (random_row n (snd (random r))))" by (rule Suc.IH)
  with later_random [of r] have "later r (snd (random_row n (snd (random r))))"
    by (rule later_trans)
  then show ?case by (simp add: split_def Let_def)
qed

lemma later_random_rows: "later r (snd (random_rows n m r))"
proof (induction n arbitrary: r)
  case 0
  then show ?case by (simp add: later_refl)
next
  case (Suc n)
  have "later (snd (random_row m r)) (snd (random_rows n m (snd (random_row m r))))" by (rule Suc.IH)
  with later_random_row [of r m] have "later r (snd (random_rows n m (snd (random_row m r))))"
    by (rule later_trans)
  then show ?case by (simp add: split_def Let_def)
qed

lemma later_new_NeuralNetwork: "later r (snd (new_NeuralNetwork i h o' r))"
proof -
  let ?r1 = "snd (random_rows i h r)"
  let ?r2 = "snd (random_rows h o' ?r1)"
  let ?r3 = "snd (random_row h ?r2)"
  let ?r4 = "snd (random_row o' ?r3)"
  have "later r ?r4"
    by (metis later_trans later_random_rows later_random_row)
  moreover have "snd (new_NeuralNetwork i h o' r) = ?r4"
    by (simp add: new_NeuralNetwork_def split_def Let_def)
  ultimately show ?thesis by simp
qed

lemma later_copy: "later r (snd (copy nn r))"
  using later_new_NeuralNetwork [of r "inputNodes nn" "hiddenNodes nn" "outputNodes nn"]
  by (simp add: copy_def split_def Let_def)

text \<open>\<open>mutateValue\<close> and the entries of a mutated network.\<close>

lemma mutateValue_fst:
  "fst (mutateValue rate v r) =
     (if r 0 < rate
      then (if r 1 < fl64 0.05 then fl64 (v + large_step (r 2)) else fl64 (v + small_step (r 2)))
      else v)"
  by (simp add: mutateValue_def random_def split_def Let_def numeral_2_eq_2)

lemma later_mutateValue: "later r (snd (mutateValue rate v r))"
proof -
  have "later r (snd (random r))" by (rule later_random)
  moreover have "later r (snd (random (snd (random (snd (random r))))))"
    by (metis later_trans later_random)
  ultimately show ?thesis
    by (simp add: mutateValue_def split_def Let_def)
qed

lemma mutate_row_entries:
  "length (fst (mutate_row rate vs r)) = length vs \<and>
   later r (snd (mutate_row rate vs r)) \<and>
   (\<forall>j < length vs. \<exists>r'. later r r' \<and>
      fst (mutate_row rate vs r) ! j = fst (mutateValue rate (vs ! j) r'))"
proof (induction vs arbitrary: r)
  case Nil
  then show ?case by (simp add: later_refl)
next
  case (Cons v vs)
  let ?r1 = "snd (mutateValue rate v r)"
  have l1: "later r ?r1" by (rule later_mutateValue)
  from Cons.IH [of ?r1] have
    len: "length (fst (mutate_row rate vs ?r1)) = length vs" and
    lat: "later ?r1 (snd (mutate_row rate vs ?r1))" and
    ent: "\<forall>j < length vs. \<exists>r'. later ?r1 r' \<and>
      fst (mutate_row rate vs ?r1) ! j = fst (mutateValue rate (vs ! j) r')"
    by simp_all
  have eq: "mutate_row rate (v # vs) r =
      (fst (mutateValue rate v r) # fst (mutate_row rate vs ?r1), snd (mutate_row rate vs ?r1))"
    by (simp add: split_def Let_def)
  have e: "\<exists>r'. later r r' \<and>
      fst (mutate_row rate (v # vs) r) ! j = fst (mutateValue rate ((v # vs) ! j) r')"
    if "j < length (v # vs)" for j
  proof (cases j)
    case 0
    then show ?thesis unfolding eq using later_refl [of r] by auto
  next
    case (Suc i)
    with that have "i < length vs" by simp
    with ent obtain r' where "later ?r1 r'"
      "fst (mutate_row rate vs ?r1) ! i = fst (mutateValue rate (vs ! i) r')" by blast
    then show ?thesis unfolding eq using Suc l1 later_trans by auto
  qed
  have c1: "length (fst (mutate_row rate (v # vs) r)) = length (v # vs)"
    unfolding eq using len by simp
  have c2: "later r (snd (mutate_row rate (v # vs) r))"
    unfolding eq using later_trans [OF l1 lat] by simp
  show ?case using c1 c2 e by blast
qed

lemma mutate_row_from:
  assumes "later r0 r"
  shows "later r0 (snd (mutate_row rate vs r))"
    and "j < length vs \<Longrightarrow>
           \<exists>r'. later r0 r' \<and> fst (mutate_row rate vs r) ! j = fst (mutateValue rate (vs ! j) r')"
proof -
  from mutate_row_entries [of rate vs r] have
    lat: "later r (snd (mutate_row rate vs r))" and
    ent: "\<forall>j < length vs. \<exists>r'. later r r' \<and>
      fst (mutate_row rate vs r) ! j = fst (mutateValue rate (vs ! j) r')"
    by simp_all
  show "later r0 (snd (mutate_row rate vs r))" using assms lat by (rule later_trans)
  assume "j < length vs"
  with ent obtain r' where r': "later r r'"
    "fst (mutate_row rate vs r) ! j = fst (mutateValue rate (vs ! j) r')" by blast
  from later_trans [OF assms r'(1)] r'(2)
  show "\<exists>r'. later r0 r' \<and> fst (mutate_row rate vs r) ! j = fst (mutateValue rate (vs ! j) r')"
    by blast
qed

lemma mutate_rows_from:
  "later r0 r \<Longrightarrow>
   length (fst (mutate_rows rate rows r)) = length rows \<and>
   later r0 (snd (mutate_rows rate rows r)) \<and>
   (\<forall>a < length rows. length (fst (mutate_rows rate rows r) ! a) = length (rows ! a) \<and>
      (\<forall>b < length (rows ! a). \<exists>r'. later r0 r' \<and>
         fst (mutate_rows rate rows r) ! a ! b = fst (mutateValue rate (rows ! a ! b) r')))"
proof (induction rows arbitrary: r)
  case Nil
  then show ?case by simp
next
  case (Cons row rows)
  let ?r1 = "snd (mutate_row rate row r)"
  have eq: "mutate_rows rate (row # rows) r =
      (fst (mutate_row rate row r) # fst (mutate_rows rate rows ?r1), snd (mutate_rows rate rows ?r1))"
    by (simp add: split_def Let_def)
  have l1: "later r0 ?r1" using Cons.prems by (rule mutate_row_from(1))
  from Cons.IH [OF l1] have
    len: "length (fst (mutate_rows rate rows ?r1)) = length rows" and
    lat: "later r0 (snd (mutate_rows rate rows ?r1))" and
    ent: "\<forall>a < length rows. length (fst (mutate_rows rate rows ?r1) ! a) = length (rows ! a) \<and>
      (\<forall>b < length (rows ! a). \<exists>r'. later r0 r' \<and>
         fst (mutate_rows rate rows ?r1) ! a ! b = fst (mutateValue rate (rows ! a ! b) r'))"
    by simp_all
  have rl: "length (fst (mutate_row rate row r)) = length row"
    using mutate_row_entries [of rate row r] by simp
  have c3: "length (fst (mutate_rows rate (row # rows) r) ! a) = length ((row # rows) ! a) \<and>
      (\<forall>b < length ((row # rows) ! a). \<exists>r'. later r0 r' \<and>
         fst (mutate_rows rate (row # rows) r) ! a ! b = fst (mutateValue rate ((row # rows) ! a ! b) r'))"
    if "a < length (row # rows)" for a
  proof (cases a)
    case 0
    have "\<exists>r'. later r0 r' \<and> fst (mutate_row rate row r) ! b = fst (mutateValue rate (row ! b) r')"
      if "b < length row" for b
      using Cons.prems that by (rule mutate_row_from(2))
    then show ?thesis unfolding eq using 0 rl by simp
  next
    case (Suc i)
    with that have "i < length rows" by simp
    with ent have "length (fst (mutate_rows rate rows ?r1) ! i) = length (rows ! i) \<and>
      (\<forall>b < length (rows ! i). \<exists>r'. later r0 r' \<and>
         fst (mutate_rows rate rows ?r1) ! i ! b = fst (mutateValue rate (rows ! i ! b) r'))"
      by blast
    then show ?thesis unfolding eq using Suc by simp
  qed
  have c1: "length (fst (mutate_rows rate (row # rows) r)) = length (row # rows)"
    unfolding eq using len by simp
  have c2: "later r0 (snd (mutate_rows rate (row # rows) r))"
    unfolding eq using lat by simp
  show ?case using c1 c2 c3 by blast
qed

lemma mutate_entries:
  "inputNodes (fst (mutate rate p r)) = inputNodes p \<and>
   hiddenNodes (fst (mutate rate p r)) = hiddenNodes p \<and>
   outputNodes (fst (mutate rate p r)) = outputNodes p \<and>
   length (weightsIH (fst (mutate rate p r))) = length (weightsIH p) \<and>
   length (weightsHO (fst (mutate rate p r))) = length (weightsHO p) \<and>
   length (biasH (fst (mutate rate p r))) = length (biasH p) \<and>
   length (biasO (fst (mutate rate p r))) = length (biasO p) \<and>
   (\<forall>a < length (weightsIH p).
      length (weightsIH (fst (mutate rate p r)) ! a) = length (weightsIH p ! a) \<and>
      (\<forall>b < length (weightsIH p ! a). \<exists>r'. later r r' \<and>
         weightsIH (fst (mutate rate p r)) ! a ! b = fst (mutateValue rate (weightsIH p ! a ! b) r'))) \<and>
   (\<forall>a < length (weightsHO p).
      length (weightsHO (fst (mutate rate p r)) ! a) = length (weightsHO p ! a) \<and>
      (\<forall>b < length (weightsHO p ! a). \<exists>r'. later r r' \<and>
         weightsHO (fst (mutate rate p r)) ! a ! b = fst (mutateValue rate (weightsHO p ! a ! b) r'))) \<and>
   (\<forall>j < length (biasH p). \<exists>r'. later r r' \<and>
      biasH (fst (mutate rate p r)) ! j = fst (mutateValue rate (biasH p ! j) r')) \<and>
   (\<forall>j < length (biasO p). \<exists>r'. later r r' \<and>
      biasO (fst (mutate rate p r)) ! j = fst (mutateValue rate (biasO p ! j) r'))"
proof -
  let ?r1 = "snd (mutate_rows rate (weightsIH p) r)"
  let ?r2 = "snd (mutate_rows rate (weightsHO p) ?r1)"
  let ?r3 = "snd (mutate_row rate (biasH p) ?r2)"
  have eq: "fst (mutate rate p r) =
      p\<lparr>weightsIH := fst (mutate_rows rate (weightsIH p) r),
        weightsHO := fst (mutate_rows rate (weightsHO p) ?r1),
        biasH := fst (mutate_row rate (biasH p) ?r2),
        biasO := fst (mutate_row rate (biasO p) ?r3)\<rparr>"
    by (simp add: mutate_def split_def Let_def)
  note m1 = mutate_rows_from [OF later_refl, of rate "weightsIH p" r]
  from m1 have l1: "later r ?r1" by simp
  note m2 = mutate_rows_from [OF l1, of rate "weightsHO p"]
  from m2 have l2: "later r ?r2" by simp
  have l3: "later r ?r3" using l2 by (rule mutate_row_from(1))
  have a3: "\<exists>r'. later r r' \<and>
      fst (mutate_row rate (biasH p) ?r2) ! j = fst (mutateValue rate (biasH p ! j) r')"
    if "j < length (biasH p)" for j
    using l2 that by (rule mutate_row_from(2))
  have a4: "\<exists>r'. later r r' \<and>
      fst (mutate_row rate (biasO p) ?r3) ! j = fst (mutateValue rate (biasO p ! j) r')"
    if "j < length (biasO p)" for j
    using l3 that by (rule mutate_row_from(2))
  have lens: "length (fst (mutate_row rate (biasH p) ?r2)) = length (biasH p)"
    "length (fst (mutate_row rate (biasO p) ?r3)) = length (biasO p)"
    using mutate_row_entries [of rate "biasH p" ?r2] mutate_row_entries [of rate "biasO p" ?r3]
    by simp_all
  show ?thesis
    unfolding eq using m1 m2 lens a3 a4 by simp
qed

lemma later_mutate: "later r (snd (mutate rate p r))"
proof -
  let ?r1 = "snd (mutate_rows rate (weightsIH p) r)"
  let ?r2 = "snd (mutate_rows rate (weightsHO p) ?r1)"
  let ?r3 = "snd (mutate_row rate (biasH p) ?r2)"
  let ?r4 = "snd (mutate_row rate (biasO p) ?r3)"
  have "snd (mutate rate p r) = ?r4"
    by (simp add: mutate_def split_def Let_def)
  moreover have "later r ?r1" using mutate_rows_from [OF later_refl, of rate "weightsIH p" r] by simp
  then have "later r ?r2" using mutate_rows_from [of r ?r1 rate "weightsHO p"] by simp
  then have "later r ?r3" by (rule mutate_row_from(1))
  then have "later r ?r4" by (rule mutate_row_from(1))
  ultimately show ?thesis by simp
qed

lemma later_createAIBird: "later r (snd (createAIBird i bb r))"
proof -
  let ?r1 = "snd (random r)"
  have l1: "later r ?r1" by (rule later_random)
  show ?thesis
  proof (cases "length bb > 0")
    case False
    then show ?thesis
      using later_trans [OF l1 later_new_NeuralNetwork [of ?r1 4 6 1]]
      by (simp add: createAIBird_def split_def Let_def)
  next
    case True
    let ?p = "bb ! (i mod length bb)"
    let ?r2 = "snd (copy ?p ?r1)"
    have l2: "later r ?r2" using l1 later_copy by (rule later_trans)
    have l3: "later r (snd (mutate AI_MUTATION_RATE (fst (copy ?p ?r1)) ?r2))"
      using l2 later_mutate by (rule later_trans)
    show ?thesis
    proof (cases "i > 0")
      case True
      with \<open>length bb > 0\<close> l3 show ?thesis by (simp add: createAIBird_def split_def Let_def)
    next
      case False
      then have i: "i = 0" by simp
      have "later r (snd (copy (bb ! 0) ?r1))" using l1 later_copy by (rule later_trans)
      with \<open>length bb > 0\<close> i show ?thesis by (simp add: createAIBird_def split_def Let_def)
    qed
  qed
qed

lemma createAIBirds_from_length: "length (fst (createAIBirds_from is bb r)) = length is"
proof (induction "is" arbitrary: r)
  case Nil
  then show ?case by simp
next
  case (Cons i "is")
  obtain b1 r1 where c: "createAIBird i bb r = (b1, r1)"
    by (cases "createAIBird i bb r")
  obtain bs2 r2 where d: "createAIBirds_from is bb r1 = (bs2, r2)"
    by (cases "createAIBirds_from is bb r1")
  from Cons.IH [of r1] d have "length bs2 = length is" by simp
  then show ?case using c d by simp
qed

lemma createAIBirds_from_nth_later:
  "k < length is \<Longrightarrow>
     \<exists>r'. later r r' \<and> fst (createAIBirds_from is bb r) ! k = fst (createAIBird (is ! k) bb r')"
proof (induction "is" arbitrary: r k)
  case Nil
  then show ?case by simp
next
  case (Cons i "is")
  let ?r1 = "snd (createAIBird i bb r)"
  have eq: "fst (createAIBirds_from (i # is) bb r) =
      fst (createAIBird i bb r) # fst (createAIBirds_from is bb ?r1)"
    by (simp add: split_def Let_def)
  show ?case
  proof (cases k)
    case 0
    then show ?thesis unfolding eq using later_refl [of r] by auto
  next
    case (Suc j)
    with Cons.prems have "j < length is" by simp
    from Cons.IH [OF this, of ?r1] obtain r' where r':
      "later ?r1 r'" "fst (createAIBirds_from is bb ?r1) ! j = fst (createAIBird (is ! j) bb r')"
      by blast
    have "later r r'" using later_createAIBird r'(1) by (rule later_trans)
    with r'(2) show ?thesis unfolding eq using Suc by auto
  qed
qed

lemma createAIBird_champion:
  assumes "bb \<noteq> []"
  shows "brain (fst (createAIBird 0 bb r)) = bb ! 0 \<and>
         color (fst (createAIBird 0 bb r)) = Hex ''#FF0000''"
proof -
  obtain u r1 where u: "random r = (u, r1)" by (cases "random r")
  obtain b r2 where b: "copy (bb ! 0) r1 = (b, r2)" by (cases "copy (bb ! 0) r1")
  have "b = bb ! 0" using copy_same [of "bb ! 0" r1] b by simp
  then show ?thesis
    using assms u b by (simp add: createAIBird_def spawn_bird_def)
qed

lemma createAIBird_child_later:
  assumes "bb \<noteq> []" "0 < i"
  shows "\<exists>r'. later r r' \<and>
           brain (fst (createAIBird i bb r)) = fst (mutate AI_MUTATION_RATE (bb ! (i mod length bb)) r')"
proof -
  let ?r1 = "snd (random r)"
  let ?p = "bb ! (i mod length bb)"
  let ?r2 = "snd (copy ?p ?r1)"
  have l2: "later r ?r2" using later_random later_copy by (rule later_trans)
  have "brain (fst (createAIBird i bb r)) = fst (mutate AI_MUTATION_RATE (fst (copy ?p ?r1)) ?r2)"
    using assms by (simp add: createAIBird_def split_def Let_def spawn_bird_def)
  then have "brain (fst (createAIBird i bb r)) = fst (mutate AI_MUTATION_RATE ?p ?r2)"
    by (simp only: copy_same)
  with l2 show ?thesis by blast
qed

lemma createAIBird_child_color:
  assumes "bb \<noteq> []" "0 < i"
  shows "color (fst (createAIBird i bb r)) \<noteq> Hex ''#FF0000''"
  using assms by (simp add: createAIBird_def split_def Let_def spawn_bird_def)

lemma later_entry:
  assumes "later r0 r" "\<exists>r'. later r r' \<and> v' = fst (mutateValue rate v r')"
  shows "\<exists>m. v' = fst (mutateValue rate v (\<lambda>n. r0 (m + n)))"
proof -
  from assms(2) obtain r' where r': "later r r'" "v' = fst (mutateValue rate v r')" by blast
  from later_trans [OF assms(1) r'(1)] obtain m where "r' = (\<lambda>n. r0 (m + n))"
    unfolding later_def by blast
  with r'(2) show ?thesis by blast
qed

lemma mutate_clone:
  assumes "later r0 r"
  shows "inputNodes (fst (mutate rate p r)) = inputNodes p \<and>
         hiddenNodes (fst (mutate rate p r)) = hiddenNodes p \<and>
         outputNodes (fst (mutate rate p r)) = outputNodes p \<and>
         list_all2 (list_all2 (\<lambda>v v'. \<exists>m. v' = fst (mutateValue rate v (\<lambda>n. r0 (m + n)))))
           (weightsIH p) (weightsIH (fst (mutate rate p r))) \<and>
         list_all2 (list_all2 (\<lambda>v v'. \<exists>m. v' = fst (mutateValue rate v (\<lambda>n. r0 (m + n)))))
           (weightsHO p) (weightsHO (fst (mutate rate p r))) \<and>
         list_all2 (\<lambda>v v'. \<exists>m. v' = fst (mutateValue rate v (\<lambda>n. r0 (m + n))))
           (biasH p) (biasH (fst (mutate rate p r))) \<and>
         list_all2 (\<lambda>v v'. \<exists>m. v' = fst (mutateValue rate v (\<lambda>n. r0 (m + n))))
           (biasO p) (biasO (fst (mutate rate p r)))"
proof -
  let ?c = "fst (mutate rate p r)"
  let ?R = "\<lambda>v v'. \<exists>m. v' = fst (mutateValue rate v (\<lambda>n. r0 (m + n)))"
  note e = mutate_entries [of rate p r]
  have ih: "list_all2 (list_all2 ?R) (weightsIH p) (weightsIH ?c)"
    unfolding list_all2_conv_all_nth
  proof (intro conjI allI impI)
    show "length (weightsIH p) = length (weightsIH ?c)" using e by simp
  next
    fix a assume "a < length (weightsIH p)"
    then show "length (weightsIH p ! a) = length (weightsIH ?c ! a)" using e by simp
  next
    fix a b assume "a < length (weightsIH p)" "b < length (weightsIH p ! a)"
    then have "\<exists>r'. later r r' \<and>
         weightsIH ?c ! a ! b = fst (mutateValue rate (weightsIH p ! a ! b) r')"
      using e by blast
    with assms show "?R (weightsIH p ! a ! b) (weightsIH ?c ! a ! b)" by (rule later_entry)
  qed
  have ho: "list_all2 (list_all2 ?R) (weightsHO p) (weightsHO ?c)"
    unfolding list_all2_conv_all_nth
  proof (intro conjI allI impI)
    show "length (weightsHO p) = length (weightsHO ?c)" using e by simp
  next
    fix a assume "a < length (weightsHO p)"
    then show "length (weightsHO p ! a) = length (weightsHO ?c ! a)" using e by simp
  next
    fix a b assume "a < length (weightsHO p)" "b < length (weightsHO p ! a)"
    then have "\<exists>r'. later r r' \<and>
         weightsHO ?c ! a ! b = fst (mutateValue rate (weightsHO p ! a ! b) r')"
      using e by blast
    with assms show "?R (weightsHO p ! a ! b) (weightsHO ?c ! a ! b)" by (rule later_entry)
  qed
  have bh: "list_all2 ?R (biasH p) (biasH ?c)"
    unfolding list_all2_conv_all_nth
  proof (intro conjI allI impI)
    show "length (biasH p) = length (biasH ?c)" using e by simp
  next
    fix j assume "j < length (biasH p)"
    then have "\<exists>r'. later r r' \<and> biasH ?c ! j = fst (mutateValue rate (biasH p ! j) r')"
      using e by blast
    with assms show "?R (biasH p ! j) (biasH ?c ! j)" by (rule later_entry)
  qed
  have bo: "list_all2 ?R (biasO p) (biasO ?c)"
    unfolding list_all2_conv_all_nth
  proof (intro conjI allI impI)
    show "length (biasO p) = length (biasO ?c)" using e by simp
  next
    fix j assume "j < length (biasO p)"
    then have "\<exists>r'. later r r' \<and> biasO ?c ! j = fst (mutateValue rate (biasO p ! j) r')"
      using e by blast
    with assms show "?R (biasO p ! j) (biasO ?c ! j)" by (rule later_entry)
  qed
  show ?thesis using e ih ho bh bo by simp
qed

lemma step_bounds:
  assumes "0 \<le> u" "u < 1"
  shows "\<bar>large_step u\<bar> \<le> 1 / 2 \<and> \<bar>small_step u\<bar> \<le> fl64 0.1"
proof -
  have t: "fl64 0.2 = 3602879701896397 / 18014398509481984"
    and h: "fl64 0.1 = 3602879701896397 / 36028797018963968"
    by (simp_all add: fl64_eval)
  have a: "0 \<le> fl64 (u * 1.0)" "fl64 (u * 1.0) \<le> 1"
    using assms fl64_nonneg [of "u * 1.0"] fl64_mono [of "u * 1.0" 1] by simp_all
  have "fl64 (- (1 / 2)) \<le> fl64 (fl64 (u * 1.0) - 0.5)" "fl64 (fl64 (u * 1.0) - 0.5) \<le> fl64 (1 / 2)"
    using a by (intro fl64_mono; simp)+
  then have l: "\<bar>large_step u\<bar> \<le> 1 / 2"
    by (simp add: large_step_def fl64_eval)
  have "u * (3602879701896397 / 18014398509481984) \<le> 3602879701896397 / 18014398509481984"
    using assms by simp
  then have "fl64 (u * (3602879701896397 / 18014398509481984))
      \<le> fl64 (3602879701896397 / 18014398509481984)"
    by (rule fl64_mono)
  then have b: "0 \<le> fl64 (u * fl64 0.2)" "fl64 (u * fl64 0.2) \<le> 3602879701896397 / 18014398509481984"
    using assms fl64_nonneg [of "u * fl64 0.2"] by (simp_all add: t fl64_eval)
  have "fl64 (- (3602879701896397 / 36028797018963968)) \<le> fl64 (fl64 (u * fl64 0.2) - fl64 0.1)"
       "fl64 (fl64 (u * fl64 0.2) - fl64 0.1) \<le> fl64 (3602879701896397 / 36028797018963968)"
    using b unfolding h by (intro fl64_mono; simp)+
  then have s: "\<bar>small_step u\<bar> \<le> fl64 0.1"
    by (simp add: small_step_def h fl64_eval)
  show ?thesis using l s by simp
qed

lemma sort_by_fitness_props:
  "length (sort_by_fitness bs) = length bs \<and> set (sort_by_fitness bs) = set bs"
  by (simp add: sort_by_fitness_def)

lemma sort_by_fitness_descending:
  assumes "j \<le> k" "k < length bs"
  shows "fitness (sort_by_fitness bs ! k) \<le> fitness (sort_by_fitness bs ! j)"
proof -
  let ?s = "sort_by_fitness bs"
  have "sorted (map (\<lambda>b. - fitness b) ?s)"
    by (simp add: sort_by_fitness_def)
  moreover have "k < length (map (\<lambda>b. - fitness b) ?s)"
    using assms by (simp add: sort_by_fitness_props)
  ultimately have "map (\<lambda>b. - fitness b) ?s ! j \<le> map (\<lambda>b. - fitness b) ?s ! k"
    using assms(1) by (simp only: sorted_nth_mono)
  then show ?thesis using assms by (simp add: sort_by_fitness_props)
qed

lemma sort_by_fitness_best:
  assumes "b \<in> set bs"
  shows "fitness b \<le> fitness (sort_by_fitness bs ! 0)"
proof -
  from assms have "b \<in> set (sort_by_fitness bs)" by (simp add: sort_by_fitness_props)
  then obtain k where "k < length (sort_by_fitness bs)" "sort_by_fitness bs ! k = b"
    by (auto simp: in_set_conv_nth)
  then show ?thesis
    using sort_by_fitness_descending [of 0 k bs] by (simp add: sort_by_fitness_props)
qed

lemma nextGeneration_Inr: "birds g \<noteq> [] \<Longrightarrow> \<exists>g'. nextGeneration g = Inr g'"
proof -
  assume "birds g \<noteq> []"
  then have "length (sort_by_fitness (birds g)) \<noteq> 0" by (simp add: sort_by_fitness_props)
  then obtain b bs where "sort_by_fitness (birds g) = b # bs"
    by (cases "sort_by_fitness (birds g)") auto
  then show ?thesis
    by (simp add: nextGeneration_def Let_def split: prod.splits)
qed

lemma nextGeneration_stored:
  assumes "nextGeneration g = Inr g'"
  shows "stored_model g' = Some (toJSON (brain (sort_by_fitness (birds g) ! 0))) \<and>
         pipes g' = [] \<and> lastPipeSpawn g' = 0 \<and> generation g' = generation g + 1"
  using assms
  by (auto simp: nextGeneration_def Let_def bestCount_def take_Suc_Cons eval_nat_numeral
           split: prod.splits list.splits if_splits)

text \<open>
  Claim C3. When \<open>nextGeneration\<close> returns on a population of at least five birds (a
  population of a run in AI mode always has \<open>AI_POPULATION = 50\<close>, lemma
  \<open>reachable_population\<close> below), the new population has 50
  birds; the bird at position 0, and no other, has the champion's colour \<open>#FF0000\<close>;
  its network equals, in the dimensions and in every entry of the four arrays, the
  network of the first bird of the old population sorted by fitness, largest first,
  which is a bird of the old population whose fitness no other exceeds; it comes from
  \<open>copy\<close> alone, without \<open>mutate\<close>. The best network is also what is written to
  the storage.

  Every other new bird \<open>i\<close> has the network that \<open>mutate(AI_MUTATION_RATE)\<close> returns
  on the network of the sorted bird \<open>i mod 5\<close>, with the random numbers of the
  sequence of the state from some position on. That network has the dimensions of the
  parent and arrays of the same shape, and each entry comes from the parent's entry at
  the same place by \<open>mutateValue\<close> on numbers of that sequence: it is the parent's
  entry when the first number drawn is not below the rate, and otherwise the parent's
  entry plus a large or a small step, according to the second number, of a size given
  by the third. For numbers in \<open>[0, 1)\<close> a large step is within a half and a small
  step within a tenth.
\<close>

theorem C3_elitism:
  assumes "nextGeneration g = Inr g'" "5 \<le> length (birds g)"
  shows "length (birds g') = AI_POPULATION \<and> AI_POPULATION = 50 \<and>
         (\<forall>i < length (birds g'). color (birds g' ! i) = Hex ''#FF0000'' \<longleftrightarrow> i = 0) \<and>
         brain (birds g' ! 0) = brain (sort_by_fitness (birds g) ! 0) \<and>
         sort_by_fitness (birds g) ! 0 \<in> set (birds g) \<and>
         (\<forall>b \<in> set (birds g). fitness b \<le> fitness (sort_by_fitness (birds g) ! 0)) \<and>
         (\<forall>j k. j \<le> k \<and> k < length (birds g) \<longrightarrow>
            fitness (sort_by_fitness (birds g) ! k) \<le> fitness (sort_by_fitness (birds g) ! j)) \<and>
         (\<forall>i. 0 < i \<and> i < length (birds g') \<longrightarrow>
            (\<exists>k. brain (birds g' ! i) =
               fst (mutate AI_MUTATION_RATE (brain (sort_by_fitness (birds g) ! (i mod 5)))
                     (\<lambda>n. rand g (k + n)))) \<and>
            inputNodes (brain (birds g' ! i)) = inputNodes (brain (sort_by_fitness (birds g) ! (i mod 5))) \<and>
            hiddenNodes (brain (birds g' ! i)) = hiddenNodes (brain (sort_by_fitness (birds g) ! (i mod 5))) \<and>
            outputNodes (brain (birds g' ! i)) = outputNodes (brain (sort_by_fitness (birds g) ! (i mod 5))) \<and>
            list_all2 (list_all2
                (\<lambda>v v'. \<exists>m. v' = fst (mutateValue AI_MUTATION_RATE v (\<lambda>n. rand g (m + n)))))
              (weightsIH (brain (sort_by_fitness (birds g) ! (i mod 5)))) (weightsIH (brain (birds g' ! i))) \<and>
            list_all2 (list_all2
                (\<lambda>v v'. \<exists>m. v' = fst (mutateValue AI_MUTATION_RATE v (\<lambda>n. rand g (m + n)))))
              (weightsHO (brain (sort_by_fitness (birds g) ! (i mod 5)))) (weightsHO (brain (birds g' ! i))) \<and>
            list_all2 (\<lambda>v v'. \<exists>m. v' = fst (mutateValue AI_MUTATION_RATE v (\<lambda>n. rand g (m + n))))
              (biasH (brain (sort_by_fitness (birds g) ! (i mod 5)))) (biasH (brain (birds g' ! i))) \<and>
            list_all2 (\<lambda>v v'. \<exists>m. v' = fst (mutateValue AI_MUTATION_RATE v (\<lambda>n. rand g (m + n))))
              (biasO (brain (sort_by_fitness (birds g) ! (i mod 5)))) (biasO (brain (birds g' ! i)))) \<and>
         fst (mutateValue rate v r) =
           (if r 0 < rate
            then (if r 1 < fl64 0.05 then fl64 (v + large_step (r 2)) else fl64 (v + small_step (r 2)))
            else v) \<and>
         (0 \<le> u \<and> u < 1 \<longrightarrow> \<bar>large_step u\<bar> \<le> 1 / 2 \<and> \<bar>small_step u\<bar> \<le> fl64 0.1) \<and>
         stored_model g' = Some (toJSON (brain (sort_by_fitness (birds g) ! 0)))"
proof -
  let ?s = "sort_by_fitness (birds g)"
  let ?bb = "map brain (take bestCount ?s)"
  have ls: "length ?s = length (birds g)" by (simp add: sort_by_fitness_props)
  have lbb: "length ?bb = 5" using assms(2) ls by (simp add: bestCount_def)
  then have ne: "?bb \<noteq> []" by auto
  have nth_bb: "\<And>k. k < 5 \<Longrightarrow> ?bb ! k = brain (?s ! k)"
    using assms(2) ls by (simp add: bestCount_def)
  have bs: "birds g' = fst (createAIBirds_from [0..<AI_POPULATION] ?bb (rand g))"
    using nextGeneration_birds [OF assms(1)] by (simp add: createAIBirds_def)
  have len: "length (birds g') = AI_POPULATION"
    by (simp add: bs createAIBirds_from_length)
  have nth: "\<exists>r'. later (rand g) r' \<and> birds g' ! i = fst (createAIBird i ?bb r')"
    if "i < AI_POPULATION" for i
    using createAIBirds_from_nth_later [of i "[0..<AI_POPULATION]" "rand g" ?bb] that by (simp add: bs)
  have champ: "brain (birds g' ! 0) = brain (?s ! 0) \<and> color (birds g' ! 0) = Hex ''#FF0000''"
  proof -
    from nth [of 0] obtain r' where "birds g' ! 0 = fst (createAIBird 0 ?bb r')"
      by (auto simp: AI_POPULATION_def)
    then show ?thesis using createAIBird_champion [OF ne, of r'] nth_bb [of 0] by simp
  qed
  let ?child = "\<lambda>i.
            (\<exists>k. brain (birds g' ! i) =
               fst (mutate AI_MUTATION_RATE (brain (?s ! (i mod 5))) (\<lambda>n. rand g (k + n)))) \<and>
            inputNodes (brain (birds g' ! i)) = inputNodes (brain (?s ! (i mod 5))) \<and>
            hiddenNodes (brain (birds g' ! i)) = hiddenNodes (brain (?s ! (i mod 5))) \<and>
            outputNodes (brain (birds g' ! i)) = outputNodes (brain (?s ! (i mod 5))) \<and>
            list_all2 (list_all2
                (\<lambda>v v'. \<exists>m. v' = fst (mutateValue AI_MUTATION_RATE v (\<lambda>n. rand g (m + n)))))
              (weightsIH (brain (?s ! (i mod 5)))) (weightsIH (brain (birds g' ! i))) \<and>
            list_all2 (list_all2
                (\<lambda>v v'. \<exists>m. v' = fst (mutateValue AI_MUTATION_RATE v (\<lambda>n. rand g (m + n)))))
              (weightsHO (brain (?s ! (i mod 5)))) (weightsHO (brain (birds g' ! i))) \<and>
            list_all2 (\<lambda>v v'. \<exists>m. v' = fst (mutateValue AI_MUTATION_RATE v (\<lambda>n. rand g (m + n))))
              (biasH (brain (?s ! (i mod 5)))) (biasH (brain (birds g' ! i))) \<and>
            list_all2 (\<lambda>v v'. \<exists>m. v' = fst (mutateValue AI_MUTATION_RATE v (\<lambda>n. rand g (m + n))))
              (biasO (brain (?s ! (i mod 5)))) (biasO (brain (birds g' ! i)))"
  have child: "?child i" and col: "color (birds g' ! i) \<noteq> Hex ''#FF0000''"
    if i: "0 < i" "i < AI_POPULATION" for i
  proof -
    from nth [OF i(2)] obtain r' where r': "later (rand g) r'"
      "birds g' ! i = fst (createAIBird i ?bb r')" by blast
    from createAIBird_child_later [OF ne i(1), of r'] obtain r'' where r'': "later r' r''"
      "brain (fst (createAIBird i ?bb r')) = fst (mutate AI_MUTATION_RATE (?bb ! (i mod length ?bb)) r'')"
      by blast
    have p: "?bb ! (i mod length ?bb) = brain (?s ! (i mod 5))"
      using nth_bb [of "i mod 5"] lbb by simp
    have br: "brain (birds g' ! i) = fst (mutate AI_MUTATION_RATE (brain (?s ! (i mod 5))) r'')"
      using r'(2) r''(2) p by simp
    have l: "later (rand g) r''" using r'(1) r''(1) by (rule later_trans)
    then obtain k where k: "r'' = (\<lambda>n. rand g (k + n))" unfolding later_def by blast
    have one: "\<exists>k. brain (birds g' ! i) =
               fst (mutate AI_MUTATION_RATE (brain (?s ! (i mod 5))) (\<lambda>n. rand g (k + n)))"
      using br k by blast
    note mc = mutate_clone [OF l, of AI_MUTATION_RATE "brain (?s ! (i mod 5))", folded br]
    show "?child i"
      using one mc by (intro conjI) simp_all
    show "color (birds g' ! i) \<noteq> Hex ''#FF0000''"
      using r'(2) createAIBird_child_color [OF ne i(1), of r'] by simp
  qed
  have best_in: "?s ! 0 \<in> set (birds g)"
  proof -
    have "0 < length ?s" using assms(2) ls by linarith
    then have "?s ! 0 \<in> set ?s" by (rule nth_mem)
    then show ?thesis by (simp add: sort_by_fitness_props)
  qed
  have colors: "\<forall>i < length (birds g'). color (birds g' ! i) = Hex ''#FF0000'' \<longleftrightarrow> i = 0"
  proof (intro allI impI)
    fix i assume il: "i < length (birds g')"
    show "color (birds g' ! i) = Hex ''#FF0000'' \<longleftrightarrow> i = 0"
    proof (cases "i = 0")
      case True
      then show ?thesis using champ by simp
    next
      case False
      then have "0 < i" by simp
      moreover have "i < AI_POPULATION" using il len by simp
      ultimately have "color (birds g' ! i) \<noteq> Hex ''#FF0000''" by (rule col)
      with False show ?thesis by simp
    qed
  qed
  have children: "\<forall>i. 0 < i \<and> i < length (birds g') \<longrightarrow> ?child i"
  proof (intro allI impI)
    fix i assume "0 < i \<and> i < length (birds g')"
    then have "0 < i" "i < AI_POPULATION" using len by simp_all
    then show "?child i" by (rule child)
  qed
  have pop: "AI_POPULATION = 50" by (simp add: AI_POPULATION_def)
  have best: "\<forall>b \<in> set (birds g). fitness b \<le> fitness (?s ! 0)"
    using sort_by_fitness_best by blast
  have desc: "\<forall>j k. j \<le> k \<and> k < length (birds g) \<longrightarrow> fitness (?s ! k) \<le> fitness (?s ! j)"
    using sort_by_fitness_descending by blast
  have st: "stored_model g' = Some (toJSON (brain (?s ! 0)))"
    using nextGeneration_stored [OF assms(1)] by simp
  have sb: "0 \<le> u \<and> u < 1 \<longrightarrow> \<bar>large_step u\<bar> \<le> 1 / 2 \<and> \<bar>small_step u\<bar> \<le> fl64 0.1"
    using step_bounds by blast
  from champ have ch: "brain (birds g' ! 0) = brain (?s ! 0)" by simp
  show ?thesis
    by (intro conjI len pop colors ch best_in best desc children mutateValue_fst sb st)
qed

lemma random_row_shift:
  "random_row n r = (map (\<lambda>k. fl64 (fl64 (r k * 2) - 1)) [0..<n], (\<lambda>k. r (k + n)))"
proof (induction n arbitrary: r)
  case 0
  then show ?case by simp
next
  case (Suc n)
  have "map (\<lambda>k. fl64 (fl64 (r (Suc k) * 2) - 1)) [0..<n] = map (\<lambda>k. fl64 (fl64 (r k * 2) - 1)) [Suc 0..<Suc n]"
    by (simp add: map_Suc_upt [symmetric] del: upt_Suc)
  then show ?case
    by (simp add: Suc.IH random_def upt_conv_Cons del: upt_Suc)
qed

lemma random_rows_shift:
  "random_rows n m r =
     (map (\<lambda>i. map (\<lambda>k. fl64 (fl64 (r (i * m + k) * 2) - 1)) [0..<m]) [0..<n], (\<lambda>k. r (k + n * m)))"
proof (induction n arbitrary: r)
  case 0
  then show ?case by simp
next
  case (Suc n)
  have "map (\<lambda>i. map (\<lambda>k. fl64 (fl64 (r (i * m + k + m) * 2) - 1)) [0..<m]) [0..<n] =
        map (\<lambda>i. map (\<lambda>k. fl64 (fl64 (r (i * m + k) * 2) - 1)) [0..<m]) [Suc 0..<Suc n]"
    by (simp add: map_Suc_upt [symmetric] add.commute add.left_commute del: upt_Suc)
  then show ?case
    by (simp add: Suc.IH random_row_shift upt_conv_Cons add.commute add.left_commute del: upt_Suc)
qed

lemma upt_4: "[0..<4] = [0, 1, 2, 3]"
  by (simp add: upt_rec)

lemma upt_6: "[0..<6] = [0, 1, 2, 3, 4, 5]"
  by (simp add: upt_rec)

lemma new_461:
  "new_NeuralNetwork 4 6 (Suc 0) r =
     (\<lparr>inputNodes = 4, hiddenNodes = 6, outputNodes = 1,
       weightsIH = map (\<lambda>i. map (\<lambda>k. fl64 (fl64 (r (i * 6 + k) * 2) - 1)) [0, 1, 2, 3, 4, 5]) [0, 1, 2, 3],
       weightsHO = map (\<lambda>i. [fl64 (fl64 (r (24 + i) * 2) - 1)]) [0, 1, 2, 3, 4, 5],
       biasH = map (\<lambda>k. fl64 (fl64 (r (30 + k) * 2) - 1)) [0, 1, 2, 3, 4, 5],
       biasO = [fl64 (fl64 (r 36 * 2) - 1)]\<rparr>, (\<lambda>k. r (k + 37)))"
  by (simp add: new_NeuralNetwork_def random_rows_shift random_row_shift upt_4 upt_6
        add.commute)

lemma new_461_fst:
  "fst (new_NeuralNetwork 4 6 1 r) =
     \<lparr>inputNodes = 4, hiddenNodes = 6, outputNodes = 1,
       weightsIH = map (\<lambda>i. map (\<lambda>k. fl64 (fl64 (r (i * 6 + k) * 2) - 1)) [0, 1, 2, 3, 4, 5]) [0, 1, 2, 3],
       weightsHO = map (\<lambda>i. [fl64 (fl64 (r (24 + i) * 2) - 1)]) [0, 1, 2, 3, 4, 5],
       biasH = map (\<lambda>k. fl64 (fl64 (r (30 + k) * 2) - 1)) [0, 1, 2, 3, 4, 5],
       biasO = [fl64 (fl64 (r 36 * 2) - 1)]\<rparr>"
  by (simp add: new_461)


lemma upt_50: "[0..<50] = 0 # 1 # [2..<50]"
  by (simp add: upt_rec)

lemma game5_best:
  "brain (sort_by_fitness (birds game5) ! 0) = zero_brain\<lparr>biasO := [1]\<rparr>"
  "brain (sort_by_fitness (birds game5) ! 1) = zero_brain"
  by (simp_all add: game5_def game0_def sort_by_fitness_def fresh_bird_def spawn_bird_def)

lemma game5_parents:
  "map brain (take bestCount (sort_by_fitness (birds game5))) =
     [zero_brain\<lparr>biasO := [1]\<rparr>, zero_brain, zero_brain, zero_brain, zero_brain]"
  by (simp add: game5_def game0_def sort_by_fitness_def fresh_bird_def spawn_bird_def bestCount_def)

lemma snd_copy_461:
  "inputNodes p = 4 \<Longrightarrow> hiddenNodes p = 6 \<Longrightarrow> outputNodes p = 1 \<Longrightarrow>
     snd (copy p r) = (\<lambda>k. r (k + 37))"
  by (simp add: copy_def new_461 split_def)

lemma second_bird:
  assumes "inputNodes p0 = 4" "hiddenNodes p0 = 6" "outputNodes p0 = 1"
    "inputNodes p1 = 4" "hiddenNodes p1 = 6" "outputNodes p1 = 1"
  shows "brain (fst (createAIBirds_from (0 # 1 # is) (p0 # p1 # ps) r) ! 1) =
           fst (mutate AI_MUTATION_RATE p1 (\<lambda>k. r (k + 76)))"
proof -
  let ?bb = "p0 # p1 # ps"
  have s0: "snd (createAIBird 0 ?bb r) = (\<lambda>k. r (k + 38))"
    using assms(1-3)
    by (simp add: createAIBird_def random_def split_def Let_def snd_copy_461 add.commute)
  have m: "Suc 0 mod length ?bb = 1" by simp
  have b1: "brain (fst (createAIBird 1 ?bb (\<lambda>k. r (k + 38)))) =
      fst (mutate AI_MUTATION_RATE p1 (\<lambda>k. r (k + 76)))"
    using assms(4-6)
    by (simp add: createAIBird_def random_def split_def Let_def snd_copy_461 copy_same
          spawn_bird_def add.commute)
  show ?thesis
    by (simp add: split_def Let_def s0 b1 del: One_nat_def)
qed

lemma mutate_first_entry:
  "weightsIH p = (v # row) # rows \<Longrightarrow>
     weightsIH (fst (mutate rate p r)) ! 0 ! 0 = fst (mutateValue rate v r)"
  by (simp add: mutate_def split_def Let_def)

lemma zero_brain_first: "weightsIH zero_brain = (0 # replicate 5 0) # replicate 3 (replicate 6 0)"
  by (simp add: zero_brain_def eval_nat_numeral)

text \<open>
  Claim C3 on a population of five birds: the best network, the one with the output
  bias 1, goes unchanged to the champion at position 0; the bird at position 1 is the
  child of the second best network, the all-zero one, and with the random sequence of
  \<open>game5\<close> its first weight is mutated by a small step, from 0 to
  \<open>0.05000000000000002\<close>.
\<close>

theorem C3_elitism_witness:
  "\<exists>g'. nextGeneration game5 = Inr g' \<and> 5 \<le> length (birds game5) \<and>
     length (birds g') = 50 \<and> color (birds g' ! 0) = Hex ''#FF0000'' \<and>
     color (birds g' ! 1) \<noteq> Hex ''#FF0000'' \<and>
     brain (birds g' ! 0) = zero_brain\<lparr>biasO := [1]\<rparr> \<and>
     brain (sort_by_fitness (birds game5) ! 1) = zero_brain \<and>
     weightsIH zero_brain ! 0 ! 0 = 0 \<and>
     weightsIH (brain (birds g' ! 1)) ! 0 ! 0 = 1801439850948199 / 36028797018963968 \<and>
     \<bar>small_step (3 / 4)\<bar> \<le> fl64 0.1"
proof -
  have n: "birds game5 \<noteq> []" and l: "5 \<le> length (birds game5)"
    by (simp_all add: game5_def)
  from nextGeneration_Inr [OF n] obtain g' where g': "nextGeneration game5 = Inr g'"
    by blast
  have r: "rand game5 = (\<lambda>n. if n = 76 then 0 else if n = 78 then 3 / 4 else 1 / 2)"
    by (simp add: game5_def)
  have bs: "birds g' = fst (createAIBirds_from (0 # 1 # [2..<50])
      [zero_brain\<lparr>biasO := [1]\<rparr>, zero_brain, zero_brain, zero_brain, zero_brain] (rand game5))"
    using nextGeneration_birds [OF g']
    by (simp only: createAIBirds_def AI_POPULATION_def game5_parents upt_50)
  have "brain (birds g' ! 1) = fst (mutate AI_MUTATION_RATE zero_brain (\<lambda>k. rand game5 (k + 76)))"
    unfolding bs by (rule second_bird) (simp_all add: zero_brain_def)
  then have e: "weightsIH (brain (birds g' ! 1)) ! 0 ! 0 = 1801439850948199 / 36028797018963968"
    by (simp add: mutate_first_entry [OF zero_brain_first] mutateValue_fst r spawn_values
          small_step_def fl64_eval)
  have z: "weightsIH zero_brain ! 0 ! 0 = 0" by (simp add: zero_brain_first)
  note t = C3_elitism [OF g' l, where u = "3 / 4" and rate = AI_MUTATION_RATE and v = 0
      and r = "rand game5"]
  note t1 = t [THEN conjunct1]
  note t3 = t [THEN conjunct2, THEN conjunct2, THEN conjunct1]
  note t4 = t [THEN conjunct2, THEN conjunct2, THEN conjunct2, THEN conjunct1]
  note t10 = t [THEN conjunct2, THEN conjunct2, THEN conjunct2, THEN conjunct2, THEN conjunct2,
      THEN conjunct2, THEN conjunct2, THEN conjunct2, THEN conjunct2, THEN conjunct1]
  have len: "length (birds g') = 50" using t1 by (simp add: AI_POPULATION_def)
  have c0: "color (birds g' ! 0) = Hex ''#FF0000''" and c1: "color (birds g' ! 1) \<noteq> Hex ''#FF0000''"
    using t3 len by simp_all
  have b0: "brain (birds g' ! 0) = zero_brain\<lparr>biasO := [1]\<rparr>"
    using t4 game5_best(1) by simp
  have sb: "\<bar>small_step (3 / 4)\<bar> \<le> fl64 0.1" using t10 by simp
  show ?thesis
    using g' l len c0 c1 b0 game5_best(2) z e sb by (intro exI [of _ g']) simp
qed

section \<open>Fitness, distance and score within a generation\<close>

lemma update_bird_dead: "\<not> alive b \<Longrightarrow> update_bird m a t ps b = Inr b"
  by (simp add: update_bird_def)

lemma decide_fields:
  "decide m a t b = Inr b' \<Longrightarrow>
     distance b' = distance b \<and> score b' = score b \<and> fitness b' = fitness b \<and>
     bird_x b' = bird_x b \<and> alive b' = alive b \<and> brain b' = brain b \<and> color b' = color b"
  by (auto simp: decide_def split: if_splits sum.splits)

lemma update_bird_alive:
  assumes "update_bird m a t ps b = Inr b'" "alive b"
  shows "distance b' = distance b + PIPE_SPEED \<and> score b' = score b \<and>
         fitness b' = distance b' + real (score b') * 5000 \<and> bird_x b' = bird_x b \<and>
         brain b' = brain b \<and> color b' = color b"
proof -
  from assms obtain b1 where d: "decide m a t (accrue b) = Inr b1"
    and b': "b' = pipe_collision ps (ceiling_clamp (ground (physics b1)))"
    by (auto simp: update_bird_def split: sum.splits)
  have f: "distance b1 = distance b + PIPE_SPEED" "score b1 = score b"
    "fitness b1 = distance b + PIPE_SPEED + real (score b) * 5000" "bird_x b1 = bird_x b"
    "brain b1 = brain b" "color b1 = color b"
    using decide_fields [OF d] by (simp_all add: accrue_def Let_def)
  have g: "distance (ceiling_clamp (ground (physics b1))) = distance b1"
    "score (ceiling_clamp (ground (physics b1))) = score b1"
    "fitness (ceiling_clamp (ground (physics b1))) = fitness b1"
    "bird_x (ceiling_clamp (ground (physics b1))) = bird_x b1"
    by (simp_all add: ceiling_clamp_def ground_def physics_def Let_def)
  have h: "brain (pipe_collision ps c) = brain c" "color (pipe_collision ps c) = color c" for c
    by (induction ps arbitrary: c) auto
  have k: "brain (ceiling_clamp (ground (physics b1))) = brain b1"
    "color (ceiling_clamp (ground (physics b1))) = color b1"
    by (simp_all add: ceiling_clamp_def ground_def physics_def Let_def)
  show ?thesis
    using f g h k by (simp add: b' pipe_collision_fields)
qed

lemma update_bird_alive_imp:
  assumes "update_bird m a t ps b = Inr b'" "alive b'"
  shows "alive b"
  using assms by (cases "alive b") (simp_all add: update_bird_def)

lemma gen_inv_update_birds:
  assumes inv: "gen_inv d sp s bs"
    and ub: "update_birds m a t ps bs = Inr bs'"
  shows "gen_inv (d + PIPE_SPEED) s s bs'"
proof -
  have all2: "list_all2 (\<lambda>b b'. update_bird m a t ps b = Inr b') bs bs'"
    using ub by (rule update_birds_all2)
  have pre: "\<exists>b \<in> set bs. update_bird m a t ps b = Inr b'" if "b' \<in> set bs'" for b'
  proof -
    from that obtain i where i: "i < length bs'" "bs' ! i = b'"
      by (auto simp: in_set_conv_nth)
    have l: "length bs = length bs'" using all2 by (rule list_all2_lengthD)
    have "update_bird m a t ps (bs ! i) = Inr (bs' ! i)"
      using all2 i(1) by (rule list_all2_nthD2)
    moreover have "bs ! i \<in> set bs" using i(1) l by simp
    ultimately show ?thesis using i(2) by blast
  qed
  have sps: "sp \<le> s" using inv by (simp add: gen_inv_def)
  have old: "alive b \<longrightarrow> distance b = d \<and> score b = s"
            "\<not> alive b \<longrightarrow> distance b \<le> d \<and> score b \<le> sp \<and>
               fitness b = distance b + real (score b) * 5000" if "b \<in> set bs" for b
    using inv that by (auto simp: gen_inv_def)
  have pairs: "\<not> alive b1 \<and> \<not> alive b2 \<and> score b2 < score b1 \<longrightarrow> distance b2 \<le> distance b1"
    if "b1 \<in> set bs" "b2 \<in> set bs" for b1 b2
    using inv that unfolding gen_inv_def by blast
  have sp0: "0 \<le> PIPE_SPEED" by (simp add: PIPE_SPEED_def)
  \<comment> \<open>what each bird looks like after the pass\<close>
  have new: "(b' = b \<and> \<not> alive b) \<or>
             (alive b \<and> distance b' = d + PIPE_SPEED \<and> score b' = s \<and>
              fitness b' = d + PIPE_SPEED + real s * 5000)"
    if "b \<in> set bs" "update_bird m a t ps b = Inr b'" for b b'
  proof (cases "alive b")
    case True
    then show ?thesis using update_bird_alive [OF that(2) True] old(1) [OF that(1)] by simp
  next
    case False
    then show ?thesis using that(2) by (simp add: update_bird_dead)
  qed
  have one: "(alive b' \<longrightarrow> distance b' = d + PIPE_SPEED \<and> score b' = s \<and>
                 fitness b' = d + PIPE_SPEED + real s * 5000) \<and>
             (\<not> alive b' \<longrightarrow> distance b' \<le> d + PIPE_SPEED \<and> score b' \<le> s \<and>
                 fitness b' = distance b' + real (score b') * 5000)"
    if "b' \<in> set bs'" for b'
  proof -
    from pre [OF that] obtain b where b: "b \<in> set bs" "update_bird m a t ps b = Inr b'" by blast
    from new [OF b] show ?thesis
    proof
      assume "b' = b \<and> \<not> alive b"
      then show ?thesis using old(2) [OF b(1)] sps sp0 by auto
    next
      assume "alive b \<and> distance b' = d + PIPE_SPEED \<and> score b' = s \<and>
              fitness b' = d + PIPE_SPEED + real s * 5000"
      then show ?thesis by simp
    qed
  qed
  have two: "distance b2' \<le> distance b1'"
    if "b1' \<in> set bs'" "b2' \<in> set bs'" "\<not> alive b1'" "\<not> alive b2'" "score b2' < score b1'"
    for b1' b2'
  proof -
    from pre [OF that(1)] obtain b1 where b1: "b1 \<in> set bs" "update_bird m a t ps b1 = Inr b1'"
      by blast
    from pre [OF that(2)] obtain b2 where b2: "b2 \<in> set bs" "update_bird m a t ps b2 = Inr b2'"
      by blast
    from new [OF b1] show ?thesis
    proof
      assume o1: "b1' = b1 \<and> \<not> alive b1"
      from new [OF b2] show ?thesis
      proof
        assume "b2' = b2 \<and> \<not> alive b2"
        then show ?thesis using o1 pairs [OF b1(1) b2(1)] that by simp
      next
        assume "alive b2 \<and> distance b2' = d + PIPE_SPEED \<and> score b2' = s \<and>
              fitness b2' = d + PIPE_SPEED + real s * 5000"
        then have "score b2' = s" by simp
        moreover have "score b1' \<le> sp" using o1 old(2) [OF b1(1)] by simp
        ultimately show ?thesis using that(5) sps by simp
      qed
    next
      assume "alive b1 \<and> distance b1' = d + PIPE_SPEED \<and> score b1' = s \<and>
              fitness b1' = d + PIPE_SPEED + real s * 5000"
      then have "distance b1' = d + PIPE_SPEED" by simp
      moreover have "distance b2' \<le> d + PIPE_SPEED" using one [OF that(2)] that(4)
        by (cases "alive b2'") auto
      ultimately show ?thesis by simp
    qed
  qed
  show ?thesis
    unfolding gen_inv_def using one two by blast
qed

lemma gen_inv_add_score:
  assumes "gen_inv d s s bs"
  shows "gen_inv d s (s + k) (map (add_score k) bs)"
  using assms unfolding gen_inv_def
  by (auto simp: add_score_def)

lemma gen_inv_spawned:
  assumes "\<forall>b \<in> set bs. \<exists>br c. b = spawn_bird br c"
  shows "gen_inv 0 0 0 bs"
  using assms unfolding gen_inv_def by (auto simp: spawn_bird_def)

lemma nextGeneration_generation: "nextGeneration g = Inr g' \<Longrightarrow> generation g' = generation g + 1"
  by (simp add: nextGeneration_stored)

lemma resetGame_AI_spawned: "\<forall>b \<in> set (birds (resetGame_AI g0)). \<exists>br c. b = spawn_bird br c"
proof -
  have "birds (resetGame_AI g0) = fst (createAIBirds_from [0..<AI_POPULATION] [] (rand g0))"
    by (simp add: resetGame_AI_def createAIBirds_def split: prod.splits)
  then show ?thesis
    using createAIBirds_from_spawn by metis
qed

lemma reachable_gen_inv: "reachable g \<Longrightarrow> \<exists>d sp s. gen_inv d sp s (birds g)"
proof (induction rule: reachable.induct)
  case (reset g0)
  show ?case using gen_inv_spawned [OF resetGame_AI_spawned] by blast
next
  case (start g0)
  have "birds (startTraining g0) = birds (resetGame_AI g0)"
    by (simp add: startTraining_def)
  then show ?case using gen_inv_spawned [OF resetGame_AI_spawned, of g0] by auto
next
  case (step g a g')
  from step.IH obtain d sp s where inv: "gen_inv d sp s (birds g)" by blast
  from step.hyps(3) show ?case
  proof (cases rule: update_cases)
    case (rollover bs)
    have "\<forall>b \<in> set (birds g'). \<exists>br c. b = spawn_bird br c"
      using nextGeneration_birds [OF rollover(4)]
      by (auto simp: createAIBirds_def dest: createAIBirds_from_spawn)
    then show ?thesis using gen_inv_spawned by blast
  next
    case (over bs)
    then show ?thesis by simp
  next
    case (continue bs g1)
    have "gen_inv (d + PIPE_SPEED) s s bs"
      using inv continue(1) by (rule gen_inv_update_birds)
    then have "gen_inv (d + PIPE_SPEED) s (s + k) (map (add_score k) bs)" for k
      by (rule gen_inv_add_score)
    then show ?thesis using pipe_logic_birds [OF continue(7)] continue(2) by metis
  qed
qed

text \<open>Every population of a run in AI mode has \<open>AI_POPULATION\<close> birds.\<close>

lemma update_birds_length:
  "update_birds m a t ps bs = Inr bs' \<Longrightarrow> length bs' = length bs"
  using update_birds_all2 [of m a t ps bs bs'] by (simp add: list_all2_lengthD)

lemma reachable_population: "reachable g \<Longrightarrow> length (birds g) = AI_POPULATION"
proof (induction rule: reachable.induct)
  case (reset g0)
  show ?case
    by (simp add: resetGame_AI_def createAIBirds_def createAIBirds_from_length split: prod.splits)
       (metis createAIBirds_from_length fst_conv length_upt diff_zero)
next
  case (start g0)
  show ?case
    by (simp add: startTraining_def resetGame_AI_def createAIBirds_def split: prod.splits)
       (metis createAIBirds_from_length fst_conv length_upt diff_zero)
next
  case (step g a g')
  from step.hyps(3) show ?case
  proof (cases rule: update_cases)
    case (rollover bs)
    show ?thesis
      using nextGeneration_birds [OF rollover(4)]
      by (simp add: createAIBirds_def createAIBirds_from_length)
  next
    case (over bs)
    then show ?thesis by simp
  next
    case (continue bs g1)
    have "length bs = length (birds g)" using continue(1) by (rule update_birds_length)
    then show ?thesis
      using pipe_logic_birds [OF continue(7)] continue(2) step.IH by simp
  qed
qed

lemma gen_inv_equal_score:
  assumes "gen_inv d sp s bs" "b1 \<in> set bs" "b2 \<in> set bs"
    "score b1 = score b2" "distance b2 < distance b1"
  shows "fitness b2 < fitness b1"
proof -
  have i1: "(alive b1 \<longrightarrow> distance b1 = d \<and> score b1 = s \<and> fitness b1 = d + real sp * 5000) \<and>
        (\<not> alive b1 \<longrightarrow> distance b1 \<le> d \<and> score b1 \<le> sp \<and>
           fitness b1 = distance b1 + real (score b1) * 5000)"
   and i2: "(alive b2 \<longrightarrow> distance b2 = d \<and> score b2 = s \<and> fitness b2 = d + real sp * 5000) \<and>
        (\<not> alive b2 \<longrightarrow> distance b2 \<le> d \<and> score b2 \<le> sp \<and>
           fitness b2 = distance b2 + real (score b2) * 5000)"
   and sps: "sp \<le> s"
    using assms(1-3) by (auto simp: gen_inv_def)
  show ?thesis
  proof (cases "alive b1")
    case a1: True
    show ?thesis
    proof (cases "alive b2")
      case True
      with a1 i1 i2 assms(5) show ?thesis by simp
    next
      case False
      with a1 i1 i2 assms(4) sps have "sp = s" by simp
      with a1 False i1 i2 assms(4,5) show ?thesis by simp
    qed
  next
    case d1: False
    show ?thesis
    proof (cases "alive b2")
      case True
      with d1 i1 i2 assms(5) show ?thesis by simp
    next
      case False
      with d1 i1 i2 assms(4,5) show ?thesis by simp
    qed
  qed
qed

lemma gen_inv_higher_score:
  assumes "gen_inv d sp s bs" "b1 \<in> set bs" "b2 \<in> set bs" "score b2 < score b1"
  shows "fitness b2 \<le> fitness b1 \<and>
         (\<not> alive b1 \<or> fitness b1 = distance b1 + real (score b1) * 5000 \<longrightarrow> fitness b2 < fitness b1)"
proof -
  have i1: "(alive b1 \<longrightarrow> distance b1 = d \<and> score b1 = s \<and> fitness b1 = d + real sp * 5000) \<and>
        (\<not> alive b1 \<longrightarrow> distance b1 \<le> d \<and> score b1 \<le> sp \<and>
           fitness b1 = distance b1 + real (score b1) * 5000)"
   and i2: "(alive b2 \<longrightarrow> distance b2 = d \<and> score b2 = s \<and> fitness b2 = d + real sp * 5000) \<and>
        (\<not> alive b2 \<longrightarrow> distance b2 \<le> d \<and> score b2 \<le> sp \<and>
           fitness b2 = distance b2 + real (score b2) * 5000)"
   and sps: "sp \<le> s"
   and pr: "\<not> alive b1 \<and> \<not> alive b2 \<and> score b2 < score b1 \<longrightarrow> distance b2 \<le> distance b1"
    using assms(1-3) unfolding gen_inv_def by blast+
  have sc: "real (score b2) + 1 \<le> real (score b1)" using assms(4) by linarith
  show ?thesis
  proof (cases "alive b1")
    case a1: True
    show ?thesis
    proof (cases "alive b2")
      case True
      with a1 i1 i2 assms(4) show ?thesis by simp
    next
      case False
      then have b2: "distance b2 \<le> d" "score b2 \<le> sp"
        "fitness b2 = distance b2 + real (score b2) * 5000" using i2 by simp_all
      have b1: "fitness b1 = d + real sp * 5000" "score b1 = s" "distance b1 = d"
        using a1 i1 by simp_all
      have le: "real (score b2) \<le> real sp" using b2(2) by simp
      have 1: "fitness b2 \<le> fitness b1" using b1 b2 le by simp
      have 2: "fitness b2 < fitness b1" if "fitness b1 = distance b1 + real (score b1) * 5000"
        using that b1 b2 sc by simp
      show ?thesis using 1 2 a1 by blast
    qed
  next
    case d1: False
    show ?thesis
    proof (cases "alive b2")
      case True
      with d1 i1 i2 assms(4) sps show ?thesis by simp
    next
      case False
      with d1 i1 i2 pr assms(4) sc show ?thesis by simp
    qed
  qed
qed

text \<open>
  The population that \<open>nextGeneration\<close> ranks is the one right after the birds were
  moved, with every bird dead: there the order by fitness is strict.
\<close>

lemma exhausted_population_order:
  assumes "reachable g"
    and "update_birds AI a (closestPipe (pipes g) (birds g)) (pipes g) (birds g) = Inr bs"
    and "b1 \<in> set bs" "b2 \<in> set bs" "\<not> alive b1"
  shows "(score b1 = score b2 \<and> distance b2 < distance b1 \<longrightarrow> fitness b2 < fitness b1) \<and>
         (score b2 < score b1 \<longrightarrow> fitness b2 < fitness b1)"
proof -
  from reachable_gen_inv [OF assms(1)] obtain d sp s where "gen_inv d sp s (birds g)" by blast
  then have inv: "gen_inv (d + PIPE_SPEED) s s bs"
    using assms(2) by (rule gen_inv_update_birds)
  show ?thesis
    using gen_inv_equal_score [OF inv assms(3,4)] gen_inv_higher_score [OF inv assms(3,4)] assms(5)
    by blast
qed

text \<open>
  Claim C2, as the code has it. For two birds of the population in any state of a run in
  AI mode: with equal scores, the one with the strictly greater distance has the
  strictly greater fitness; with different scores, the one with the higher score has a
  fitness that is at least the other's, and strictly greater whenever the
  higher-scoring bird is dead or its fitness is up to date
  (\<open>fitness = distance + score * 5000\<close>). What is left out is the live bird at the end
  of a step in which a pipe was passed: its score has been incremented and its fitness
  has not, until the next step.
\<close>

theorem C2_fitness_order:
  assumes "reachable g" "b1 \<in> set (birds g)" "b2 \<in> set (birds g)"
  shows "(score b1 = score b2 \<and> distance b2 < distance b1 \<longrightarrow> fitness b2 < fitness b1) \<and>
         (score b2 < score b1 \<longrightarrow> fitness b2 \<le> fitness b1) \<and>
         (score b2 < score b1 \<and> (\<not> alive b1 \<or> fitness b1 = distance b1 + real (score b1) * 5000)
            \<longrightarrow> fitness b2 < fitness b1)"
proof -
  from reachable_gen_inv [OF assms(1)] obtain d sp s where "gen_inv d sp s (birds g)" by blast
  then show ?thesis
    using gen_inv_equal_score [of d sp s "birds g" b1 b2]
          gen_inv_higher_score [of d sp s "birds g" b1 b2] assms(2,3)
    by blast
qed

text \<open>
  Claim C1, as the code has it. After a call of \<open>update\<close> that returns without a
  rollover, a bird that was alive before the call has a fitness equal to its distance
  plus 5000 times the score it had before the call, and its distance has grown by the
  speed. Its score has not decreased, and is unchanged if it died in the step; the
  fitness equals \<open>distance + score * 5000\<close> with the score after the call exactly when
  no pipe passage has incremented the score in this call. (Within the call, right after
  the bird is moved and before the pipes are, \<open>fitness = distance + score * 5000\<close>
  always holds: lemma \<open>update_bird_alive\<close>.) For two birds whose fitness has that
  form, one with score 0 never has a higher fitness than one with a score of at least
  1 whose distance is smaller by no more than 5000.
\<close>

theorem C1_fitness_after_step:
  assumes "update mode a g = Inr g'" "generation g' = generation g"
    "i < length (birds g)" "alive (birds g ! i)"
  shows "fitness (birds g' ! i) = distance (birds g' ! i) + real (score (birds g ! i)) * 5000 \<and>
         distance (birds g' ! i) = distance (birds g ! i) + PIPE_SPEED \<and>
         score (birds g ! i) \<le> score (birds g' ! i) \<and>
         (\<not> alive (birds g' ! i) \<longrightarrow> score (birds g' ! i) = score (birds g ! i)) \<and>
         (fitness (birds g' ! i) = distance (birds g' ! i) + real (score (birds g' ! i)) * 5000
            \<longleftrightarrow> score (birds g' ! i) = score (birds g ! i)) \<and>
         (fitness p = distance p + real (score p) * 5000 \<and>
          fitness q = distance q + real (score q) * 5000 \<and>
          score p = 0 \<and> 1 \<le> score q \<and> distance p \<le> distance q + 5000
            \<longrightarrow> fitness p \<le> fitness q)"
proof -
  have core: "\<exists>bs k. update_birds mode a (closestPipe (pipes g) (birds g)) (pipes g) (birds g) = Inr bs \<and>
     birds g' = map (add_score k) bs"
    using assms(1)
  proof (cases rule: update_cases)
    case (rollover bs)
    then show ?thesis using nextGeneration_generation [OF rollover(4)] assms(2) by simp
  next
    case (over bs)
    then have "birds g' = map (add_score 0) bs"
      by (simp add: birds_gameOver add_score_0 map_idI)
    with over(1) show ?thesis by blast
  next
    case (continue bs g1)
    then show ?thesis using pipe_logic_birds [OF continue(7)] by metis
  qed
  then obtain bs k where
    ub: "update_birds mode a (closestPipe (pipes g) (birds g)) (pipes g) (birds g) = Inr bs"
    and g': "birds g' = map (add_score k) bs" by blast
  have all2: "list_all2 (\<lambda>b b'. update_bird mode a (closestPipe (pipes g) (birds g)) (pipes g) b = Inr b')
     (birds g) bs"
    using ub by (rule update_birds_all2)
  have l: "length bs = length (birds g)" using all2 by (simp add: list_all2_lengthD)
  have u: "update_bird mode a (closestPipe (pipes g) (birds g)) (pipes g) (birds g ! i) = Inr (bs ! i)"
    using all2 assms(3) by (rule list_all2_nthD)
  have n: "birds g' ! i = add_score k (bs ! i)" using g' l assms(3) by simp
  have arith: "fitness p = distance p + real (score p) * 5000 \<and>
          fitness q = distance q + real (score q) * 5000 \<and>
          score p = 0 \<and> 1 \<le> score q \<and> distance p \<le> distance q + 5000
            \<longrightarrow> fitness p \<le> fitness q"
  proof (intro impI, elim conjE)
    assume h: "fitness p = distance p + real (score p) * 5000"
      "fitness q = distance q + real (score q) * 5000" "score p = 0" "1 \<le> score q"
      "distance p \<le> distance q + 5000"
    have "1 \<le> real (score q)" using h(4) by simp
    then show "fitness p \<le> fitness q" using h by simp
  qed
  from update_bird_alive [OF u assms(4)] arith show ?thesis
    unfolding n by (auto simp: add_score_def)
qed

section \<open>The run of 208 steps\<close>

lemma createAIBird_fresh:
  "createAIBird i [] r =
     (spawn_bird (fst (new_NeuralNetwork 4 6 1 (\<lambda>k. r (k + 1)))) (Hsla (fl64 (r 0 * 360))),
      (\<lambda>k. r (k + 38)))"
  by (simp add: createAIBird_def random_def new_461 Let_def add.commute)

lemma createAIBirds_from_fresh:
  "createAIBirds_from is [] r =
     (map (\<lambda>m. spawn_bird (fst (new_NeuralNetwork 4 6 1 (\<lambda>k. r (k + (38 * m + 1)))))
                 (Hsla (fl64 (r (38 * m) * 360)))) [0..<length is],
      (\<lambda>k. r (k + 38 * length is)))"
proof (induction "is" arbitrary: r)
  case Nil
  then show ?case by simp
next
  case (Cons i "is")
  have "map (\<lambda>m. spawn_bird (fst (new_NeuralNetwork 4 6 1 (\<lambda>k. r (k + 38 + (38 * m + 1)))))
                 (Hsla (fl64 (r (38 * m + 38) * 360)))) [0..<length is] =
        map (\<lambda>m. spawn_bird (fst (new_NeuralNetwork 4 6 1 (\<lambda>k. r (k + (38 * m + 1)))))
                 (Hsla (fl64 (r (38 * m) * 360)))) [Suc 0..<Suc (length is)]"
    by (simp add: map_Suc_upt [symmetric] add.commute add.left_commute del: upt_Suc)
  then show ?case
    by (simp add: Cons.IH createAIBird_fresh upt_conv_Cons add.commute add.left_commute
          del: upt_Suc)
qed

lemma seed0_first: "fst (new_NeuralNetwork 4 6 1 (\<lambda>k. seed0 (k + 1))) = thr_brain 0"
  unfolding new_461_fst by (simp add: seed0_def thr_brain_def fl64_eval)

lemma seed0_second: "fst (new_NeuralNetwork 4 6 1 (\<lambda>k. seed0 (k + 39))) = thr_brain (3 / 32)"
  unfolding new_461_fst by (simp add: seed0_def thr_brain_def fl64_eval)

lemma zero_brain_lists:
  "zero_brain =
     \<lparr>inputNodes = 4, hiddenNodes = 6, outputNodes = 1,
      weightsIH = [ [0, 0, 0, 0, 0, 0], [0, 0, 0, 0, 0, 0], [0, 0, 0, 0, 0, 0],
                   [0, 0, 0, 0, 0, 0]],
      weightsHO = [ [0], [0], [0], [0], [0], [0]],
      biasH = [0, 0, 0, 0, 0, 0], biasO = [0]\<rparr>"
  by (simp add: zero_brain_def eval_nat_numeral)

lemma seed0_rest:
  assumes "2 \<le> m" "m < 50"
  shows "fst (new_NeuralNetwork 4 6 1 (\<lambda>k. seed0 (k + (38 * m + 1)))) = zero_brain"
    and "seed0 (38 * m) = 1 / 2"
proof -
  define r where "r = (\<lambda>k. seed0 (k + (38 * m + 1)))"
  have h: "r j = 1 / 2" if "j < 37" for j
    using assms that by (simp add: r_def seed0_def)
  have "fst (new_NeuralNetwork 4 6 1 r) = zero_brain"
    unfolding new_461_fst zero_brain_lists by (simp add: h fl64_eval)
  then show "fst (new_NeuralNetwork 4 6 1 (\<lambda>k. seed0 (k + (38 * m + 1)))) = zero_brain"
    by (simp only: r_def)
  show "seed0 (38 * m) = 1 / 2" using assms by (simp add: seed0_def)
qed

lemma seed0_tail: "(\<lambda>k. seed0 (k + 38 * 50)) = (\<lambda>n. 113 / 256)"
  by (rule ext) (simp add: seed0_def)

lemma reset_game00_ready: "resetGame_AI game00 = state0\<lparr>gameState := READY\<rparr>"
proof -
  let ?f = "\<lambda>m. spawn_bird (fst (new_NeuralNetwork 4 6 1 (\<lambda>k. seed0 (k + (38 * m + 1)))))
                 (Hsla (fl64 (seed0 (38 * m) * 360)))"
  have rest: "map ?f [2..<50] = map (\<lambda>m. spawn_bird zero_brain (Hsla 180)) [2..<50]"
  proof (rule map_cong [OF refl])
    fix m :: nat
    assume "m \<in> set [2..<50]"
    then have m: "2 \<le> m" "m < 50" by (simp_all only: set_upt atLeastLessThan_iff)
    show "?f m = spawn_bird zero_brain (Hsla 180)"
      by (simp only: seed0_rest [OF m]) simp
  qed
  have "map ?f [0..<50] = ?f 0 # ?f 1 # map ?f [2..<50]"
    by (simp only: upt_50 list.map)
  also have "?f 0 = spawn_bird (thr_brain 0) (Hsla 180)"
    using seed0_first by (simp add: seed0_def)
  also have "?f 1 = spawn_bird (thr_brain (3 / 32)) (Hsla 180)"
    using seed0_second by (simp add: seed0_def)
  also have "map ?f [2..<50] = replicate 48 (spawn_bird zero_brain (Hsla 180))"
    by (simp only: rest map_replicate_const length_upt) simp
  finally have bs: "map ?f [0..<50] =
     spawn_bird (thr_brain 0) (Hsla 180) # spawn_bird (thr_brain (3 / 32)) (Hsla 180)
       # replicate 48 (spawn_bird zero_brain (Hsla 180))" .
  have "createAIBirds 50 [] seed0 =
     (map ?f [0..<50], (\<lambda>k. seed0 (k + 38 * 50)))"
    by (simp add: createAIBirds_def createAIBirds_from_fresh)
  then have c: "createAIBirds 50 [] seed0 =
     (spawn_bird (thr_brain 0) (Hsla 180) # spawn_bird (thr_brain (3 / 32)) (Hsla 180)
       # replicate 48 (spawn_bird zero_brain (Hsla 180)), (\<lambda>n. 113 / 256))"
    by (simp only: bs seed0_tail)
  show ?thesis
    by (simp add: resetGame_AI_def game00_def game0_def state0_def c AI_POPULATION_def)
qed

lemma sigmoid_gt_half: "(1 / 2 < sigmoid x) = (0 < x)"
proof -
  have "(1 / 2 < 1 / (1 + exp (- x))) = (1 + exp (- x) < 2)"
    by (simp add: field_simps add_pos_pos)
  also have "\<dots> = (exp (- x) < exp 0)" by simp
  also have "\<dots> = (0 < x)" by (simp only: exp_less_cancel_iff) simp
  finally show ?thesis by (simp add: sigmoid_def)
qed

lemma predict_thr:
  "predict (thr_brain c) [x1, x2, x3, x4] =
     Inr [Some (sigmoid (sigmoid (x4 / 2 + (- (1 / 4) - c / 2)) / 2 - 1 / 4))]"
  by (simp add: predict_def thr_brain_def upt_4 upt_6 weight_at_def num_at_def num_add_def num_mul_def)

lemma predict_zero:
  "predict zero_brain [x1, x2, x3, x4] = Inr [Some (sigmoid 0)]"
  by (simp add: predict_def zero_brain_def upt_4 upt_6 weight_at_def num_at_def num_add_def
        num_mul_def eval_nat_numeral)

lemma sigmoid_0: "sigmoid 0 = 1 / 2"
  by (simp add: sigmoid_def)

lemma wants_jump_sigmoid: "wants_jump [Some (sigmoid z)] = (0 < z)"
  using sigmoid_gt_half [of z] by (simp add: wants_jump_def)

lemma wants_jump_thr:
  "wants_jump [Some (sigmoid (sigmoid (x4 / 2 + (- (1 / 4) - c / 2)) / 2 - 1 / 4))] =
     (1 / 2 + c < x4)"
proof -
  have "(0 < sigmoid (x4 / 2 + (- (1 / 4) - c / 2)) / 2 - 1 / 4)
      = (1 / 2 < sigmoid (x4 / 2 + (- (1 / 4) - c / 2)))"
    by linarith
  also have "\<dots> = (0 < x4 / 2 + (- (1 / 4) - c / 2))"
    by (rule sigmoid_gt_half)
  also have "\<dots> = (1 / 2 + c < x4)"
    by linarith
  finally show ?thesis
    by (simp only: wants_jump_sigmoid)
qed

lemma decide_thr:
  "decide AI a t \<lparr>bird_x = x, bird_y = y, velocity = v, rotation = ro, brain = thr_brain c,
       fitness = f, score = s, distance = d, alive = al, color = co\<rparr> =
   Inr \<lparr>bird_x = x, bird_y = y,
        velocity = (if 600 * c < y - topHeight t - 75 then - 8 else v),
        rotation = ro, brain = thr_brain c,
        fitness = f, score = s, distance = d, alive = al, color = co\<rparr>"
proof -
  have c: "(1 / 2 + c < (y - (topHeight t + 150 / 2)) / 600 + 0.5) = (600 * c < y - topHeight t - 75)"
    by (auto simp: field_simps)
  show ?thesis
    unfolding decide_def sense_def Let_def
    by (simp add: predict_thr wants_jump_thr config_defs c del: wants_jump_sigmoid)
qed

lemma decide_zero:
  "decide AI a t \<lparr>bird_x = x, bird_y = y, velocity = v, rotation = ro, brain = zero_brain,
       fitness = f, score = s, distance = d, alive = al, color = co\<rparr> =
   Inr \<lparr>bird_x = x, bird_y = y, velocity = v, rotation = ro, brain = zero_brain,
        fitness = f, score = s, distance = d, alive = al, color = co\<rparr>"
  by (simp add: decide_def sense_def predict_zero wants_jump_def sigmoid_0)

lemma update_birds_replicate:
  "update_birds m a t ps (replicate n b) =
     (if n = 0 then Inr []
      else case update_bird m a t ps b of Inl e \<Rightarrow> Inl e | Inr b' \<Rightarrow> Inr (replicate n b'))"
  by (induction n) (auto split: sum.splits)

lemma foldr_max_replicate: "foldr max (replicate n (x::nat)) 0 = (if n = 0 then 0 else x)"
  by (induction n) auto

lemmas run_defs = update_def update_bird_def accrue_def physics_def ground_def
  ceiling_clamp_def closestPipe_def find_closest_def virtual_pipe_def pipe_logic_def
  spawn_pipe_def living_def Let_def move_pipe_at_def score_alive_def overlaps_def
  outside_gap_def currentGenBestScore_def random_def

lemmas run_simps = decide_thr decide_zero update_birds_replicate foldr_max_replicate

lemma funpow_max: "(max (x::nat) ^^ n) y = (if n = 0 then y else max x y)"
  by (induction n) auto

lemma run_numeral:
  "run mode a (numeral k) g =
     (case update mode a g of Inl e \<Rightarrow> Inl e | Inr g' \<Rightarrow> run mode a (pred_numeral k) g')"
  by (simp add: numeral_eq_Suc)

lemma run_add:
  "run mode a (m + n) g = (case run mode a m g of Inl e \<Rightarrow> Inl e | Inr g' \<Rightarrow> run mode a n g')"
  by (induction m arbitrary: g) (auto split: sum.splits)

lemma move_pipe_at_gameState: "gameState (move_pipe_at x0 i g) = gameState g"
  by (simp add: move_pipe_at_def Let_def)

lemma move_pipes_gameState: "gameState (move_pipes x0 n g) = gameState g"
  by (induction n arbitrary: g) (simp_all add: move_pipe_at_gameState)

lemma spawn_pipe_gameState: "gameState (spawn_pipe g) = gameState g"
  by (simp add: spawn_pipe_def Let_def split: prod.splits)

lemma pipe_logic_gameState: "pipe_logic g = Inr g' \<Longrightarrow> gameState g' = gameState g"
  by (auto simp: pipe_logic_def Let_def move_pipes_gameState spawn_pipe_gameState
           split: list.splits)

lemma nextGeneration_gameState: "nextGeneration g = Inr g' \<Longrightarrow> gameState g' = PLAYING"
  by (auto simp: nextGeneration_def Let_def split: prod.splits list.splits if_splits)

lemma update_AI_playing:
  assumes "update AI a g = Inr g'" "gameState g = PLAYING"
  shows "gameState g' = PLAYING"
  using assms(1)
proof (cases rule: update_cases)
  case (rollover bs)
  then show ?thesis by (simp add: nextGeneration_gameState)
next
  case (over bs)
  then show ?thesis by simp
next
  case (continue bs g1)
  from pipe_logic_gameState [OF continue(7)] continue(8) assms(2) show ?thesis by simp
qed

lemma reachable_run:
  "reachable g \<Longrightarrow> gameState g = PLAYING \<Longrightarrow> run AI False n g = Inr g' \<Longrightarrow>
     reachable g' \<and> gameState g' = PLAYING"
proof (induction n arbitrary: g)
  case 0
  then show ?case by simp
next
  case (Suc n)
  from Suc.prems(3) obtain g1 where u: "update AI False g = Inr g1" and r: "run AI False n g1 = Inr g'"
    by (auto split: sum.splits)
  from Suc.prems(1,2) u have "reachable g1" by (rule reachable.step)
  moreover have "gameState g1 = PLAYING" using u Suc.prems(2) by (rule update_AI_playing)
  ultimately show ?case using r by (rule Suc.IH)
qed

lemmas run_consts = spawn_bird_def spawn_values(3) spawn_x_sums JUMP_STRENGTH_def PIPE_SPEED_def
  PIPE_SPAWN_RATE_def PIPE_WIDTH_def PIPE_GAP_def BIRD_RADIUS_def GROUND_HEIGHT_def
  CANVAS_WIDTH_def CANVAS_HEIGHT_def AI_POPULATION_def

lemma run_0_26: "run AI False 26 state0 = Inr state26"
  by (simp add: run_numeral run_defs run_simps state0_def state26_def run_consts fl64_eval)

lemma run_26_52: "run AI False 26 state26 = Inr state52"
  by (simp add: run_numeral run_defs run_simps state26_def state52_def run_consts fl64_eval)

lemma run_52_78: "run AI False 26 state52 = Inr state78"
  by (simp add: run_numeral run_defs run_simps state52_def state78_def run_consts fl64_eval)

lemma run_78_104: "run AI False 26 state78 = Inr state104"
  by (simp add: run_numeral run_defs run_simps state78_def state104_def run_consts fl64_eval)

lemma run_104_130: "run AI False 26 state104 = Inr state130"
  by (simp add: run_numeral run_defs run_simps state104_def state130_def run_consts fl64_eval)

lemma run_130_156: "run AI False 26 state130 = Inr state156"
  by (simp add: run_numeral run_defs run_simps state130_def state156_def run_consts fl64_eval)

lemma run_156_182: "run AI False 26 state156 = Inr state182"
  by (simp add: run_numeral run_defs run_simps state156_def state182_def run_consts fl64_eval)

lemma run_182_206: "run AI False 24 state182 = Inr state206"
  by (simp add: run_numeral run_defs run_simps state182_def state206_def run_consts fl64_eval)

lemma step_207: "update AI False state206 = Inr state207"
  by (simp add: run_defs run_simps state206_def state207_def run_consts funpow_max fl64_eval)

lemma step_208: "update AI False state207 = Inr state208"
  by (simp add: run_defs run_simps state207_def state208_def run_consts funpow_max fl64_eval)

lemma seed0_range: "\<forall>n. 0 \<le> seed0 n \<and> seed0 n < 1"
  by (simp add: seed0_def)

lemma start_game00: "startTraining game00 = state0"
  by (simp add: startTraining_def reset_game00_ready state0_def)

lemma reachable_state0: "reachable state0"
proof -
  have "\<forall>n. 0 \<le> rand game00 n \<and> rand game00 n < 1"
    using seed0_range by (simp add: game00_def)
  then have "reachable (startTraining game00)" by (rule reachable.start)
  then show ?thesis by (simp only: start_game00)
qed

lemma playing_states:
  "gameState state0 = PLAYING" "gameState state206 = PLAYING" "gameState state207 = PLAYING"
  by (simp_all add: state0_def state206_def state207_def)

lemma run_0_206: "run AI False (26 + (26 + (26 + (26 + (26 + (26 + (26 + 24))))))) state0 = Inr state206"
  by (simp only: run_add run_0_26 run_26_52 run_52_78 run_78_104 run_104_130 run_130_156 run_156_182 run_182_206 sum.case)

lemma reachable_state206: "reachable state206"
  using reachable_state0 playing_states(1) run_0_206 by (blast dest: reachable_run)

lemma reachable_state207: "reachable state207"
  using reachable_state206 playing_states(2) step_207 by (rule reachable.step)

lemma reachable_state208: "reachable state208"
  using reachable_state207 playing_states(3) step_208 by (rule reachable.step)

lemma birds_state206:
  "alive (birds state206 ! 0)" "score (birds state206 ! 0) = 0"
  "length (birds state206) = 50" "generation state206 = 1"
  by (simp_all add: state206_def)

lemma birds_state207:
  "alive (birds state207 ! 0)" "fitness (birds state207 ! 0) = 621"
  "distance (birds state207 ! 0) = 621" "score (birds state207 ! 0) = 1"
  "\<not> alive (birds state207 ! Suc 0)" "fitness (birds state207 ! Suc 0) = 621"
  "distance (birds state207 ! Suc 0) = 621" "score (birds state207 ! Suc 0) = 0"
  "length (birds state207) = 50" "generation state207 = 1"
  by (simp_all add: state207_def)

lemma birds_state208:
  "alive (birds state208 ! 0)" "fitness (birds state208 ! 0) = 5624"
  "distance (birds state208 ! 0) = 624" "score (birds state208 ! 0) = 1"
  "\<not> alive (birds state208 ! Suc 0)" "fitness (birds state208 ! Suc 0) = 621"
  "distance (birds state208 ! Suc 0) = 621" "score (birds state208 ! Suc 0) = 0"
  "\<not> alive (birds state208 ! 2)" "fitness (birds state208 ! 2) = 75"
  "distance (birds state208 ! 2) = 75" "score (birds state208 ! 2) = 0"
  "length (birds state208) = 50"
  by (simp_all add: state208_def)

text \<open>
  Claim C1 as stated fails at call 207 of the run: the first bird is alive before and
  after the call, the call passes the first pipe and increments the bird's score to 1
  after its fitness was computed with the score 0, so at the end of the call its fitness
  is 621 and its distance plus 5000 times its score is 5621.
\<close>

theorem C1_stale_fitness_counterexample:
  "update AI False state206 = Inr state207 \<and> alive (birds state206 ! 0) \<and>
   fitness (birds state207 ! 0) = 621 \<and> distance (birds state207 ! 0) = 621 \<and>
   score (birds state207 ! 0) = 1 \<and>
   fitness (birds state207 ! 0) \<noteq>
     distance (birds state207 ! 0) + real (score (birds state207 ! 0)) * 5000"
  by (simp add: step_207 birds_state206 birds_state207)

text \<open>
  The amended claim C1 at the same call: the fitness after the call is the distance
  plus 5000 times the score before the call; and, one call later, the dead bird with
  score 0 does not outrank the bird with score 1.
\<close>

theorem C1_fitness_after_step_witness:
  "update AI False state206 = Inr state207 \<and> generation state207 = generation state206 \<and>
   0 < length (birds state206) \<and> alive (birds state206 ! 0) \<and>
   fitness (birds state207 ! 0) =
     distance (birds state207 ! 0) + real (score (birds state206 ! 0)) * 5000 \<and>
   score (birds state206 ! 0) = 0 \<and> score (birds state207 ! 0) = 1 \<and>
   fitness (birds state208 ! 2) \<le> fitness (birds state208 ! 0)"
proof -
  have h: "generation state207 = generation state206" "0 < length (birds state206)"
    "alive (birds state206 ! 0)"
    by (simp_all add: birds_state206 birds_state207)
  from C1_fitness_after_step [OF step_207 h, of "birds state208 ! 2" "birds state208 ! 0"]
  show ?thesis
    by (simp add: step_207 h birds_state206 birds_state207 birds_state208)
qed

text \<open>
  Claim C2 as stated fails in the state after call 207, a state of the run that
  starts with "START TRAINING" on the random sequence \<open>seed0\<close>: the first bird has
  score 1 and the second, which died in that call, score 0, and both have the fitness
  621, so the higher score does not give a strictly higher fitness.
\<close>

theorem C2_equal_fitness_counterexample:
  "reachable state207 \<and>
   birds state207 ! 0 \<in> set (birds state207) \<and> birds state207 ! 1 \<in> set (birds state207) \<and>
   score (birds state207 ! 1) < score (birds state207 ! 0) \<and>
   \<not> fitness (birds state207 ! 1) < fitness (birds state207 ! 0)"
proof -
  have "birds state207 ! 0 \<in> set (birds state207)" "birds state207 ! 1 \<in> set (birds state207)"
    by (rule nth_mem, simp add: birds_state207)+
  then show ?thesis
    by (simp add: reachable_state207 birds_state207)
qed

text \<open>
  The amended claim C2 one call later: the fitness of the first bird is up to date
  and strictly above that of the second; and of the second and third bird, both with
  score 0, the one that got farther has the strictly greater fitness.
\<close>

theorem C2_fitness_order_witness:
  "reachable state208 \<and>
   birds state208 ! 0 \<in> set (birds state208) \<and> birds state208 ! 1 \<in> set (birds state208) \<and>
   birds state208 ! 2 \<in> set (birds state208) \<and>
   score (birds state208 ! 1) < score (birds state208 ! 0) \<and>
   fitness (birds state208 ! 0) = distance (birds state208 ! 0) + real (score (birds state208 ! 0)) * 5000 \<and>
   fitness (birds state208 ! 1) < fitness (birds state208 ! 0) \<and>
   score (birds state208 ! 1) = score (birds state208 ! 2) \<and>
   distance (birds state208 ! 2) < distance (birds state208 ! 1) \<and>
   fitness (birds state208 ! 2) < fitness (birds state208 ! 1)"
proof -
  have m: "birds state208 ! 0 \<in> set (birds state208)" "birds state208 ! 1 \<in> set (birds state208)"
    "birds state208 ! 2 \<in> set (birds state208)"
    by (rule nth_mem, simp add: birds_state208)+
  from C2_fitness_order [OF reachable_state208 m(1) m(2)]
       C2_fitness_order [OF reachable_state208 m(2) m(3)] m
  show ?thesis
    by (simp add: reachable_state208 birds_state208)
qed

section \<open>Loading the player's network\<close>

lemma createPlayerBird_absent:
  "brain (fst (createPlayerBird parse None r)) = Fresh (fst (new_NeuralNetwork 4 6 1 r))"
  by (simp add: createPlayerBird_def spawn_bird_def split: prod.splits)

lemma createPlayerBird_unparsable:
  "parse s = Inl e \<Longrightarrow>
     brain (fst (createPlayerBird parse (Some s) r)) = Fresh (fst (new_NeuralNetwork 4 6 1 r))"
  by (simp add: createPlayerBird_def spawn_bird_def split: prod.splits)

lemma createPlayerBird_null:
  "parse s = Inr JNull \<Longrightarrow>
     brain (fst (createPlayerBird parse (Some s) r)) = Fresh (fst (new_NeuralNetwork 4 6 1 r))"
  by (simp add: createPlayerBird_def fromJSON_any_def get_prop_def spawn_bird_def split: prod.splits)

text \<open>
  Claim C9 at the stored text \<open>{}\<close>, which parses to an object without members: no
  exception is thrown, so \<open>fromJSON\<close> returns a network whose dimensions and arrays
  are all \<open>undefined\<close>, and the bird keeps that network instead of a fresh one of the
  4/6/1 shape.
\<close>

theorem C9_malformed_record_kept:
  "brain (fst (createPlayerBird (\<lambda>s. Inr (JObj [])) (Some ''{}'') (\<lambda>n. 1 / 2))) =
     Deserialized \<lparr>raw_inputNodes = Undefined, raw_hiddenNodes = Undefined,
        raw_outputNodes = Undefined, raw_weightsIH = Undefined, raw_weightsHO = Undefined,
        raw_biasH = Undefined, raw_biasO = Undefined\<rparr> \<and>
   brain (fst (createPlayerBird (\<lambda>s. Inr (JObj [])) (Some ''{}'') (\<lambda>n. 1 / 2))) \<noteq>
     Fresh (fst (new_NeuralNetwork 4 6 1 (\<lambda>n. 1 / 2)))"
  by (simp add: createPlayerBird_def fromJSON_any_def get_prop_def construct_any_def
        array_length_def spawn_bird_def split: prod.splits)

section \<open>Ten steps of free fall\<close>

lemma fallen_unfold:
  "fallen br c 2 = physics (accrue (fallen br c (Suc 0)))"
  "fallen br c 3 = physics (accrue (fallen br c 2))"
  "fallen br c 4 = physics (accrue (fallen br c 3))"
  "fallen br c 5 = physics (accrue (fallen br c 4))"
  "fallen br c 6 = physics (accrue (fallen br c 5))"
  "fallen br c 7 = physics (accrue (fallen br c 6))"
  "fallen br c 8 = physics (accrue (fallen br c 7))"
  "fallen br c 9 = physics (accrue (fallen br c 8))"
  "fallen br c 10 = physics (accrue (fallen br c 9))"
  by (simp_all add: numeral_eq_Suc)

lemma fallen_move:
  "velocity (physics (accrue b)) = fl64 (velocity b + GRAVITY)"
  "bird_y (physics (accrue b)) = fl64 (bird_y b + fl64 (velocity b + GRAVITY))"
  by (simp_all add: physics_def accrue_def Let_def)

lemma fallen_0:
  "velocity (fallen br c 0) = 0"
  "bird_y (fallen br c 0) = 300"
  by (simp_all add: spawn_values)

lemma fallen_1:
  "velocity (fallen br c (Suc 0)) = 5404319552844595 / 9007199254740992"
  "bird_y (fallen br c (Suc 0)) = 2644105562475725 / 8796093022208"
  by (simp_all add: fallen_move spawn_values fl64_eval)

lemma fallen_2:
  "velocity (fallen br c 2) = 5404319552844595 / 4503599627370496"
  "bird_y (fallen br c 2) = 5309321748204749 / 17592186044416"
  by (simp_all only: fallen_unfold(1) fallen_move fallen_1)
     (simp_all add: spawn_values(3) fl64_eval)

lemma fallen_3:
  "velocity (fallen br c 3) = 2026619832316723 / 1125899906842624"
  "bird_y (fallen br c 3) = 2670493841542349 / 8796093022208"
  by (simp_all only: fallen_unfold(2) fallen_move fallen_2)
     (simp_all add: spawn_values(3) fl64_eval)

lemma fallen_4:
  "velocity (fallen br c 4) = 5404319552844595 / 2251799813685248"
  "bird_y (fallen br c 4) = 306"
  by (simp_all only: fallen_unfold(3) fallen_move fallen_3)
     (simp_all add: spawn_values(3) fl64_eval)

lemma fallen_5:
  "velocity (fallen br c 5) = 3"
  "bird_y (fallen br c 5) = 309"
  by (simp_all only: fallen_unfold(4) fallen_move fallen_4)
     (simp_all add: spawn_values(3) fl64_eval)

lemma fallen_6:
  "velocity (fallen br c 6) = 8106479329266893 / 2251799813685248"
  "bird_y (fallen br c 6) = 2749658678742221 / 8796093022208"
  by (simp_all only: fallen_unfold(5) fallen_move fallen_5)
     (simp_all add: spawn_values(3) fl64_eval)

lemma fallen_7:
  "velocity (fallen br c 7) = 4728779608739021 / 1125899906842624"
  "bird_y (fallen br c 7) = 5573204538870989 / 17592186044416"
  by (simp_all only: fallen_unfold(6) fallen_move fallen_6)
     (simp_all add: spawn_values(3) fl64_eval)

lemma fallen_8:
  "velocity (fallen br c 8) = 5404319552844595 / 1125899906842624"
  "bird_y (fallen br c 8) = 2828823515942093 / 8796093022208"
  by (simp_all only: fallen_unfold(7) fallen_move fallen_7)
     (simp_all add: spawn_values(3) fl64_eval)

lemma fallen_9:
  "velocity (fallen br c 9) = 6079859496950169 / 1125899906842624"
  "bird_y (fallen br c 9) = 327"
  by (simp_all only: fallen_unfold(8) fallen_move fallen_8)
     (simp_all add: spawn_values(3) fl64_eval)

lemma fallen_10:
  "velocity (fallen br c 10) = 6755399441055743 / 1125899906842624"
  "bird_y (fallen br c 10) = 333"
  by (simp_all only: fallen_unfold(9) fallen_move fallen_9)
     (simp_all add: spawn_values(3) fl64_eval)

lemma fallen_alive: "alive (fallen br c k)"
  by (induction k) (simp_all add: spawn_bird_def physics_def accrue_def Let_def)

lemma fallen_band: "k \<le> 10 \<Longrightarrow> 300 \<le> bird_y (fallen br c k) \<and> bird_y (fallen br c k) \<le> 333"
proof -
  assume "k \<le> 10"
  then consider "k = 0" | "k = Suc 0" | "k = 2" | "k = 3" | "k = 4" | "k = 5" | "k = 6" | "k = 7"
    | "k = 8" | "k = 9" | "k = 10"
    by atomize_elim arith
  then show ?thesis
    by cases (simp_all add: fallen_0 fallen_1 fallen_2 fallen_3 fallen_4 fallen_5 fallen_6
        fallen_7 fallen_8 fallen_9 fallen_10 del: fallen.simps)
qed

lemma fallen_rising: "k < 10 \<Longrightarrow> bird_y (fallen br c k) < bird_y (fallen br c (Suc k))"
proof -
  assume "k < 10"
  then consider "k = 0" | "k = Suc 0" | "k = 2" | "k = 3" | "k = 4" | "k = 5" | "k = 6" | "k = 7"
    | "k = 8" | "k = 9"
    by atomize_elim arith
  then show ?thesis
  proof cases
    case 1 then show ?thesis using fallen_0(2) [of br c] fallen_1(2) [of br c]
      by (simp del: fallen.simps)
  next
    case 2 then show ?thesis using fallen_1(2) [of br c] fallen_2(2) [of br c]
      by (simp add: numeral_2_eq_2 del: fallen.simps)
  next
    case 3 then show ?thesis using fallen_2(2) [of br c] fallen_3(2) [of br c]
      by (simp add: eval_nat_numeral del: fallen.simps)
  next
    case 4 then show ?thesis using fallen_3(2) [of br c] fallen_4(2) [of br c]
      by (simp add: eval_nat_numeral del: fallen.simps)
  next
    case 5 then show ?thesis using fallen_4(2) [of br c] fallen_5(2) [of br c]
      by (simp add: eval_nat_numeral del: fallen.simps)
  next
    case 6 then show ?thesis using fallen_5(2) [of br c] fallen_6(2) [of br c]
      by (simp add: eval_nat_numeral del: fallen.simps)
  next
    case 7 then show ?thesis using fallen_6(2) [of br c] fallen_7(2) [of br c]
      by (simp add: eval_nat_numeral del: fallen.simps)
  next
    case 8 then show ?thesis using fallen_7(2) [of br c] fallen_8(2) [of br c]
      by (simp add: eval_nat_numeral del: fallen.simps)
  next
    case 9 then show ?thesis using fallen_8(2) [of br c] fallen_9(2) [of br c]
      by (simp add: eval_nat_numeral del: fallen.simps)
  next
    case 10 then show ?thesis using fallen_9(2) [of br c] fallen_10(2) [of br c]
      by (simp add: eval_nat_numeral del: fallen.simps)
  qed
qed

text \<open>A bird between 300 and 333 after its move passes the ground and the ceiling test.\<close>

lemma free_tests:
  assumes "300 \<le> bird_y b" "bird_y b \<le> 333"
  shows "ceiling_clamp (ground b) = b"
proof -
  have "fl64 (bird_y b + BIRD_RADIUS) \<le> fl64 349"
    using assms(2) by (intro fl64_mono) (simp add: BIRD_RADIUS_def)
  then have g: "\<not> CANVAS_HEIGHT - GROUND_HEIGHT \<le> fl64 (bird_y b + BIRD_RADIUS)"
    by (simp add: config_defs)
  have "fl64 284 \<le> fl64 (bird_y b - BIRD_RADIUS)"
    using assms(1) by (intro fl64_mono) (simp add: BIRD_RADIUS_def)
  then have c: "\<not> fl64 (bird_y b - BIRD_RADIUS) \<le> 0"
    by simp
  show ?thesis using g c by (simp add: ground_def ceiling_clamp_def)
qed

lemma update_bird_fallen:
  assumes "k < 10"
  shows "update_bird PLAYER False t [] (fallen br c k) = Inr (fallen br c (Suc k))"
proof -
  have "300 \<le> bird_y (fallen br c (Suc k)) \<and> bird_y (fallen br c (Suc k)) \<le> 333"
    using assms by (intro fallen_band) simp
  then have "ceiling_clamp (ground (physics (accrue (fallen br c k)))) = fallen br c (Suc k)"
    using free_tests [of "physics (accrue (fallen br c k))"] by simp
  then show ?thesis
    by (simp add: update_bird_def decide_def fallen_alive)
qed

lemma fall_step:
  assumes "birds g = [fallen br c k]" "pipes g = []" "lastPipeSpawn g < PIPE_SPAWN_RATE" "k < 10"
  shows "update PLAYER False g = Inr (g\<lparr>birds := [fallen br c (Suc k)],
           lastPipeSpawn := Suc (lastPipeSpawn g)\<rparr>)"
  using assms fallen_alive [of br c "Suc k"]
  by (simp add: update_def update_bird_fallen pipe_logic_def spawn_pipe_def Let_def
        PIPE_SPAWN_RATE_def del: fallen.simps)

lemma fall_run:
  assumes "birds g = [spawn_bird br c]" "pipes g = []"
  shows "lastPipeSpawn g + k \<le> PIPE_SPAWN_RATE \<Longrightarrow> k \<le> 10 \<Longrightarrow>
     run PLAYER False k g = Inr (g\<lparr>birds := [fallen br c k], lastPipeSpawn := lastPipeSpawn g + k\<rparr>)"
proof (induction k)
  case 0
  then show ?case using assms by simp
next
  case (Suc k)
  let ?g1 = "g\<lparr>birds := [fallen br c k], lastPipeSpawn := lastPipeSpawn g + k\<rparr>"
  have r: "run PLAYER False k g = Inr ?g1" using Suc by simp
  have "update PLAYER False ?g1 = Inr (?g1\<lparr>birds := [fallen br c (Suc k)],
           lastPipeSpawn := Suc (lastPipeSpawn ?g1)\<rparr>)"
    using assms(2) Suc.prems by (intro fall_step) simp_all
  then have u: "update PLAYER False ?g1 = Inr (g\<lparr>birds := [fallen br c (Suc k)],
           lastPipeSpawn := lastPipeSpawn g + Suc k\<rparr>)"
    by simp
  have "run PLAYER False (k + 1) g = Inr (g\<lparr>birds := [fallen br c (Suc k)],
           lastPipeSpawn := lastPipeSpawn g + Suc k\<rparr>)"
    unfolding run_add using r u by simp
  then show ?case by simp
qed

lemma exact_fall_velocity: "fst (exact_fall k) = 0.6 * real k"
  by (induction k) (simp_all add: algebra_simps)

lemma exact_fall_rising: "snd (exact_fall k) < snd (exact_fall (Suc k))"
  by (simp add: exact_fall_velocity)

text \<open>
  Claim C8, as the program computes it and in exact arithmetic. From a state with the
  one bird at the spawn point, no pipe, and no pipe due within 10 steps, 10 calls of
  \<open>update\<close> in player mode without the autopilot and without a jump return, the bird is
  alive, its velocity is \<open>6 - 2^-50\<close> (5.999999999999999): within \<open>10^-15\<close> of 6, not 6;
  and \<open>y\<close> grows strictly in every step. In exact arithmetic, with the decimal
  \<open>0.6\<close>, the velocity after 10 steps is \<open>10 * 0.6 = 6\<close> and \<open>y\<close> grows strictly in
  every step; 6 is also the binary64 product \<open>10 * GRAVITY\<close>.
\<close>

theorem C8_free_fall:
  assumes "birds g = [spawn_bird br c]" "pipes g = []" "lastPipeSpawn g + 10 \<le> PIPE_SPAWN_RATE"
  shows "(\<exists>g' b. run PLAYER False 10 g = Inr g' \<and> birds g' = [b] \<and> alive b \<and>
            velocity b = 6 - 1 / 2 ^ 50 \<and> \<bar>velocity b - 6\<bar> < 1 / 10 ^ 15) \<and>
         (\<forall>k < 10. \<exists>g1 b1 g2 b2. run PLAYER False k g = Inr g1 \<and> birds g1 = [b1] \<and>
            run PLAYER False (Suc k) g = Inr g2 \<and> birds g2 = [b2] \<and> bird_y b1 < bird_y b2) \<and>
         fst (exact_fall 10) = 10 * 0.6 \<and> fst (exact_fall 10) = 6 \<and>
         (\<forall>k. snd (exact_fall k) < snd (exact_fall (Suc k))) \<and>
         fl64 (10 * GRAVITY) = 6"
proof -
  have r: "run PLAYER False k g =
      Inr (g\<lparr>birds := [fallen br c k], lastPipeSpawn := lastPipeSpawn g + k\<rparr>)" if "k \<le> 10" for k
    using fall_run [OF assms(1,2), of k] assms(3) that by simp
  have v: "velocity (fallen br c 10) = 6 - 1 / 2 ^ 50" "\<bar>velocity (fallen br c 10) - 6\<bar> < 1 / 10 ^ 15"
    by (simp_all add: fallen_10)
  have one: "\<exists>g' b. run PLAYER False 10 g = Inr g' \<and> birds g' = [b] \<and> alive b \<and>
            velocity b = 6 - 1 / 2 ^ 50 \<and> \<bar>velocity b - 6\<bar> < 1 / 10 ^ 15"
    using r [of 10] v fallen_alive [of br c 10] by simp
  have two: "\<exists>g1 b1 g2 b2. run PLAYER False k g = Inr g1 \<and> birds g1 = [b1] \<and>
            run PLAYER False (Suc k) g = Inr g2 \<and> birds g2 = [b2] \<and> bird_y b1 < bird_y b2"
    if "k < 10" for k
    using r [of k] r [of "Suc k"] fallen_rising [OF that, of br c] that by simp
  have three: "fst (exact_fall 10) = 10 * 0.6" "fst (exact_fall 10) = 6"
    by (simp_all add: exact_fall_velocity)
  have four: "fl64 (10 * GRAVITY) = 6"
    by (simp add: spawn_values fl64_eval)
  show ?thesis
    using one two three four exact_fall_rising by blast
qed

theorem C8_free_fall_witness:
  "birds game0 = [spawn_bird zero_brain (Hex ''#FACC15'')] \<and> pipes game0 = [] \<and>
   lastPipeSpawn game0 + 10 \<le> PIPE_SPAWN_RATE \<and>
   (\<exists>g' b. run PLAYER False 10 game0 = Inr g' \<and> birds g' = [b] \<and> alive b \<and>
      velocity b = 6755399441055743 / 1125899906842624)"
proof -
  have h: "birds game0 = [spawn_bird zero_brain (Hex ''#FACC15'')]" "pipes game0 = []"
    "lastPipeSpawn game0 + 10 \<le> PIPE_SPAWN_RATE"
    by (simp_all add: game0_def fresh_bird_def PIPE_SPAWN_RATE_def)
  from C8_free_fall [OF h] obtain g' b where
    "run PLAYER False 10 game0 = Inr g'" "birds g' = [b]" "alive b" "velocity b = 6 - 1 / 2 ^ 50"
    by blast
  moreover have "(6::real) - 1 / 2 ^ 50 = 6755399441055743 / 1125899906842624" by simp
  ultimately show ?thesis using h by auto
qed

text \<open>
  Claim C8 as stated fails: after ten calls of \<open>update\<close> from the state \<open>game0\<close>, the
  velocity of the bird is \<open>6755399441055743 / 2^50\<close>, which is neither the real number
  6 nor the binary64 product \<open>10 * GRAVITY\<close>, which is 6.
\<close>

theorem C8_velocity_counterexample:
  "run PLAYER False 10 game0 =
     Inr (game0\<lparr>birds := [fallen zero_brain (Hex ''#FACC15'') 10], lastPipeSpawn := 10\<rparr>) \<and>
   velocity (fallen zero_brain (Hex ''#FACC15'') 10) = 6755399441055743 / 1125899906842624 \<and>
   velocity (fallen zero_brain (Hex ''#FACC15'') 10) \<noteq> 6 \<and>
   fl64 (10 * GRAVITY) = 6 \<and>
   velocity (fallen zero_brain (Hex ''#FACC15'') 10) \<noteq> fl64 (10 * GRAVITY)"
proof -
  have h: "birds game0 = [spawn_bird zero_brain (Hex ''#FACC15'')]" "pipes game0 = []"
    by (simp_all add: game0_def fresh_bird_def)
  have "run PLAYER False 10 game0 =
     Inr (game0\<lparr>birds := [fallen zero_brain (Hex ''#FACC15'') 10],
            lastPipeSpawn := lastPipeSpawn game0 + 10\<rparr>)"
    by (rule fall_run [OF h]) (simp_all add: game0_def PIPE_SPAWN_RATE_def)
  moreover have "lastPipeSpawn game0 = 0" by (simp add: game0_def)
  ultimately show ?thesis
    by (simp add: fallen_10 spawn_values fl64_eval)
qed

section \<open>Pipes and scores along an execution\<close>

lemma passages_flagged: "passed p \<Longrightarrow> passages x0 n p = 0"
proof (induction n arbitrary: p)
  case 0
  then show ?case by simp
next
  case (Suc n)
  show ?case
  proof (cases "advance_pipe x0 p")
    case None
    then show ?thesis by simp
  next
    case (Some q)
    then have "passed q" using Suc.prems by (simp add: advance_pipe_passed)
    then have "passages x0 n q = 0" by (rule Suc.IH)
    moreover have "\<not> newly_passed x0 p" using Suc.prems by (simp add: newly_passed_def)
    ultimately show ?thesis using Some by simp
  qed
qed

lemma passages_le_1: "passages x0 n p \<le> 1"
proof (induction n arbitrary: p)
  case 0
  then show ?case by simp
next
  case (Suc n)
  show ?case
  proof (cases "advance_pipe x0 p")
    case None
    then show ?thesis by simp
  next
    case (Some q)
    show ?thesis
    proof (cases "newly_passed x0 p")
      case True
      then have "passed q" using Some by (simp add: advance_pipe_passed)
      then have "passages x0 n q = 0" by (rule passages_flagged)
      then show ?thesis using Some True by simp
    next
      case False
      then show ?thesis using Some Suc.IH [of q] by simp
    qed
  qed
qed

lemma pipe_after_passed:
  "pipe_after x0 n p = Some q \<Longrightarrow> passed q = (passed p \<or> passages x0 n p = 1)"
proof (induction n arbitrary: p)
  case 0
  then show ?case by simp
next
  case (Suc n)
  from Suc.prems obtain p1 where p1: "advance_pipe x0 p = Some p1" "pipe_after x0 n p1 = Some q"
    by (auto split: option.splits)
  have a: "passed p1 = (passed p \<or> newly_passed x0 p)" using p1(1) by (rule advance_pipe_passed)
  have ih: "passed q = (passed p1 \<or> passages x0 n p1 = 1)" using p1(2) by (rule Suc.IH)
  show ?case
  proof (cases "passed p1")
    case True
    then have z: "passages x0 n p1 = 0" by (rule passages_flagged)
    show ?thesis
    proof (cases "passed p")
      case True
      then show ?thesis using ih \<open>passed p1\<close> by simp
    next
      case False
      then have "newly_passed x0 p" using a True by simp
      then show ?thesis using ih True p1(1) z by simp
    qed
  next
    case False
    then have "\<not> passed p" "\<not> newly_passed x0 p" using a by simp_all
    then show ?thesis using ih False p1(1) by simp
  qed
qed

lemma pipe_after_x:
  "pipe_after x0 n p = Some q \<Longrightarrow> pipe_x q = pipe_x p - real n * PIPE_SPEED \<and> topHeight q = topHeight p"
proof (induction n arbitrary: p)
  case 0
  then show ?case by simp
next
  case (Suc n)
  from Suc.prems obtain p1 where p1: "advance_pipe x0 p = Some p1" "pipe_after x0 n p1 = Some q"
    by (auto split: option.splits)
  have "pipe_x p1 = pipe_x p - PIPE_SPEED" "topHeight p1 = topHeight p"
    using p1(1) by (auto simp: advance_pipe_def split: if_splits)
  then show ?case using Suc.IH [OF p1(2)] by (simp add: algebra_simps)
qed

lemma pipe_after_first:
  "0 < n \<Longrightarrow> pipe_after x0 n p = Some q \<Longrightarrow>
     passed q = (passed p \<or> x0 > pipe_x q + PIPE_WIDTH)"
proof (induction n arbitrary: p)
  case 0
  then show ?case by simp
next
  case (Suc n)
  from Suc.prems obtain p1 where p1: "advance_pipe x0 p = Some p1" "pipe_after x0 n p1 = Some q"
    by (auto split: option.splits)
  have a: "passed p1 = (passed p \<or> x0 > pipe_x p1 + PIPE_WIDTH)"
    using p1(1) by (auto simp: advance_pipe_def split: if_splits)
  show ?case
  proof (cases n)
    case 0
    then show ?thesis using p1 a by simp
  next
    case (Suc m)
    then have ih: "passed q = (passed p1 \<or> x0 > pipe_x q + PIPE_WIDTH)"
      using Suc.IH [OF _ p1(2)] by simp
    have "pipe_x q \<le> pipe_x p1"
      using pipe_after_x [OF p1(2)] by (simp add: PIPE_SPEED_def)
    then show ?thesis using ih a by auto
  qed
qed

lemma pipe_after_Suc:
  "pipe_after x0 (Suc n) p =
     (case pipe_after x0 n p of None \<Rightarrow> None | Some q \<Rightarrow> advance_pipe x0 q)"
proof (induction n arbitrary: p)
  case 0
  then show ?case by (simp split: option.splits)
next
  case (Suc n)
  show ?case
  proof (cases "advance_pipe x0 p")
    case None
    then show ?thesis by simp
  next
    case (Some q)
    then show ?thesis using Suc.IH [of q] by simp
  qed
qed

lemma map_filter_append:
  "List.map_filter f (xs @ ys) = List.map_filter f xs @ List.map_filter f ys"
  by (simp add: List.map_filter_def)

lemma map_filter_pipe_after:
  "List.map_filter (advance_pipe x0) (List.map_filter (pipe_after x0 n) ps) =
     List.map_filter (pipe_after x0 (Suc n)) ps"
proof (induction ps)
  case Nil
  then show ?case by (simp add: List.map_filter_simps)
next
  case (Cons p ps)
  show ?case
  proof (cases "pipe_after x0 n p")
    case None
    then show ?thesis
      using Cons.IH by (simp add: List.map_filter_simps pipe_after_Suc del: pipe_after.simps)
  next
    case (Some q)
    then show ?thesis
      using Cons.IH
      by (cases "advance_pipe x0 q")
         (simp_all add: List.map_filter_simps pipe_after_Suc del: pipe_after.simps)
  qed
qed


lemma spawn_pipe_pipes:
  "\<exists>new. pipes (spawn_pipe g) = pipes g @ new \<and>
     (new = [] \<or> (\<exists>t. new = [\<lparr>pipe_x = CANVAS_WIDTH, topHeight = t, passed = False\<rparr>]))"
  by (simp add: spawn_pipe_def Let_def split: prod.splits)

lemma spawn_pipe_fields:
  "generation (spawn_pipe g) = generation g"
  by (simp add: spawn_pipe_def Let_def split: prod.splits)

lemma move_pipe_at_generation: "generation (move_pipe_at x0 i g) = generation g"
  by (simp add: move_pipe_at_def Let_def)

lemma move_pipes_generation: "generation (move_pipes x0 n g) = generation g"
  by (induction n arbitrary: g) (simp_all add: move_pipe_at_generation)

lemma pipe_logic_generation: "pipe_logic g = Inr g' \<Longrightarrow> generation g' = generation g"
  by (auto simp: pipe_logic_def Let_def move_pipes_generation spawn_pipe_fields split: list.splits)

lemma pipe_logic_pipes:
  assumes "pipe_logic g = Inr g'"
  shows "pipes g' = List.map_filter (advance_pipe (bird_x (hd (birds g)))) (pipes (spawn_pipe g))"
proof -
  let ?g1 = "spawn_pipe g"
  from assms obtain b0 bs where b: "birds ?g1 = b0 # bs"
    and g': "g' = move_pipes (bird_x b0) (length (pipes ?g1)) ?g1"
    by (auto simp: pipe_logic_def Let_def split: list.splits)
  have "hd (birds g) = b0" using b by (simp add: birds_spawn_pipe)
  then show ?thesis
    using move_pipes_effect [of "length (pipes ?g1)" ?g1 "bird_x b0"] g' by simp
qed

lemma update_bird_kept:
  assumes "update_bird m a t ps b = Inr b'"
  shows "bird_x b' = bird_x b \<and> score b' = score b \<and> (alive b' \<longrightarrow> alive b)"
proof (cases "alive b")
  case True
  then show ?thesis using update_bird_alive [OF assms True] by simp
next
  case False
  then show ?thesis using assms by (simp add: update_bird_dead)
qed

lemma update_birds_kept:
  assumes "update_birds m a t ps bs = Inr bs'"
  shows "length bs' = length bs"
    and "i < length bs \<Longrightarrow> bird_x (bs' ! i) = bird_x (bs ! i) \<and> score (bs' ! i) = score (bs ! i) \<and>
           (alive (bs' ! i) \<longrightarrow> alive (bs ! i))"
proof -
  have all2: "list_all2 (\<lambda>b b'. update_bird m a t ps b = Inr b') bs bs'"
    using assms by (rule update_birds_all2)
  then show "length bs' = length bs" by (simp add: list_all2_lengthD)
  assume "i < length bs"
  with all2 have "update_bird m a t ps (bs ! i) = Inr (bs' ! i)" by (rule list_all2_nthD)
  then show "bird_x (bs' ! i) = bird_x (bs ! i) \<and> score (bs' ! i) = score (bs ! i) \<and>
           (alive (bs' ! i) \<longrightarrow> alive (bs ! i))"
    by (rule update_bird_kept)
qed

lemma continues_kept:
  assumes "update_birds m a t ps bs = Inr bs'" "continues mode bs'"
  shows "continues mode bs \<and> bs \<noteq> []"
proof (cases mode)
  case AI
  with assms(2) obtain i where i: "i < length bs'" "alive (bs' ! i)"
    by (auto simp: continues_def living_def filter_empty_conv in_set_conv_nth)
  then have l: "i < length bs" using update_birds_kept(1) [OF assms(1)] by simp
  then have "alive (bs ! i)" using update_birds_kept(2) [OF assms(1) l] i(2) by simp
  then have "\<exists>b \<in> set bs. alive b" using l nth_mem by blast
  then show ?thesis using AI l by (auto simp: continues_def living_def filter_empty_conv)
next
  case PLAYER
  with assms(2) obtain b0' rest' where b': "bs' = b0' # rest'" "alive b0'"
    by (auto simp: continues_def split: list.splits)
  then have l: "0 < length bs" using update_birds_kept(1) [OF assms(1)] by auto
  then obtain b0 rest where b: "bs = b0 # rest" by (cases bs) auto
  have "alive (bs ! 0)" using update_birds_kept(2) [OF assms(1) l] b' by simp
  then show ?thesis using PLAYER b by (simp add: continues_def)
qed

lemma continues_add_score: "continues mode (map (add_score k) bs) = continues mode bs"
proof -
  have "alive (add_score k b) = alive b" for b by (simp add: add_score_def)
  then have "filter alive (map (add_score k) bs) = map (add_score k) (filter alive bs)"
    by (induction bs) simp_all
  then have "living (map (add_score k) bs) = living bs" by (simp add: living_def)
  moreover have "(case map (add_score k) bs of [] \<Rightarrow> False | b0 # _ \<Rightarrow> alive b0)
      = (case bs of [] \<Rightarrow> False | b0 # _ \<Rightarrow> alive b0)"
    by (cases bs) (simp_all add: add_score_def)
  ultimately show ?thesis by (simp add: continues_def)
qed

lemma continue_step:
  assumes ub: "update_birds m a t ps (birds g) = Inr bs"
    and pl: "pipe_logic g1 = Inr g'"
    and g1: "birds g1 = bs" "pipes g1 = pipes g" "generation g1 = generation g"
    and c: "continues mode bs"
  shows "\<exists>new. (new = [] \<or> (\<exists>t. new = [\<lparr>pipe_x = CANVAS_WIDTH, topHeight = t, passed = False\<rparr>])) \<and>
            pipes g' = List.map_filter (advance_pipe (bird_x (hd (birds g)))) (pipes g @ new) \<and>
            length (birds g') = length (birds g) \<and>
            (\<forall>i < length (birds g).
               score (birds g' ! i) = score (birds g ! i) +
                 (if alive (birds g' ! i)
                  then length (filter (newly_passed (bird_x (hd (birds g)))) (pipes g @ new)) else 0)) \<and>
            generation g' = generation g \<and> continues mode (birds g) \<and> birds g \<noteq> [] \<and>
            continues mode (birds g') \<and>
            bird_x (hd (birds g')) = bird_x (hd (birds g))"
proof -
  let ?x0 = "bird_x (hd (birds g))"
  have l: "length bs = length (birds g)" using ub by (rule update_birds_kept(1))
  have k: "continues mode (birds g)" and ne: "birds g \<noteq> []"
    using continues_kept [OF ub c] by simp_all
  have kept: "bird_x (bs ! i) = bird_x (birds g ! i) \<and> score (bs ! i) = score (birds g ! i)"
    if "i < length (birds g)" for i
    using update_birds_kept(2) [OF ub that] by simp
  have bne: "bs \<noteq> []" using l ne by auto
  have x: "bird_x (hd bs) = ?x0"
    using kept [of 0] ne bne by (simp add: hd_conv_nth)
  obtain new where sp: "pipes (spawn_pipe g1) = pipes g @ new"
    and new: "new = [] \<or> (\<exists>t. new = [\<lparr>pipe_x = CANVAS_WIDTH, topHeight = t, passed = False\<rparr>])"
    using spawn_pipe_pipes [of g1] g1(2) by auto
  let ?N = "length (filter (newly_passed ?x0) (pipes g @ new))"
  have bg': "birds g' = map (add_score ?N) bs"
    using pipe_logic_birds [OF pl] g1(1) x sp by simp
  have p: "pipes g' = List.map_filter (advance_pipe ?x0) (pipes g @ new)"
    using pipe_logic_pipes [OF pl] g1(1) x sp by simp
  have sc: "score (birds g' ! i) = score (birds g ! i) + (if alive (birds g' ! i) then ?N else 0)"
    if "i < length (birds g)" for i
    using that l kept [OF that] by (simp add: bg' add_score_def)
  have hx: "bird_x (hd (birds g')) = ?x0"
    using bne x by (simp add: bg' hd_map add_score_def)
  have cg': "continues mode (birds g')" using c by (simp add: bg' continues_add_score)
  have "generation g' = generation g" using pipe_logic_generation [OF pl] g1(3) by simp
  with new p l sc k ne hx cg' show ?thesis by (intro exI [of _ new]) (simp add: bg')
qed

text \<open>The three ways a call of \<open>update\<close> can return, seen from the pipes and the scores.\<close>

lemma update_step:
  assumes "update mode a g = Inr g'"
  shows "(pipes g' = [] \<and> generation g' = generation g + 1) \<or>
         (pipes g' = pipes g \<and> map score (birds g') = map score (birds g) \<and>
          gameState g' = GAME_OVER \<and> generation g' = generation g \<and> \<not> continues mode (birds g')) \<or>
         (\<exists>new. (new = [] \<or> (\<exists>t. new = [\<lparr>pipe_x = CANVAS_WIDTH, topHeight = t, passed = False\<rparr>])) \<and>
            pipes g' = List.map_filter (advance_pipe (bird_x (hd (birds g)))) (pipes g @ new) \<and>
            length (birds g') = length (birds g) \<and>
            (\<forall>i < length (birds g).
               score (birds g' ! i) = score (birds g ! i) +
                 (if alive (birds g' ! i)
                  then length (filter (newly_passed (bird_x (hd (birds g)))) (pipes g @ new)) else 0)) \<and>
            generation g' = generation g \<and> continues mode (birds g) \<and> birds g \<noteq> [] \<and>
            continues mode (birds g') \<and>
            bird_x (hd (birds g')) = bird_x (hd (birds g)))"
    (is "?roll \<or> ?over \<or> ?cont")
proof -
  from assms obtain bs where
    ub: "update_birds mode a (closestPipe (pipes g) (birds g)) (pipes g) (birds g) = Inr bs"
    by (auto simp: update_def split: sum.splits)
  show ?thesis
  proof (cases mode)
    case AI
    let ?g2 = "g\<lparr>birds := bs, bestScore := currentGenBestScore (birds g), aliveCount := living bs\<rparr>"
    show ?thesis
    proof (cases "living bs = 0")
      case True
      then have "nextGeneration ?g2 = Inr g'"
        using assms ub AI by (simp add: update_def Let_def)
      then have ?roll using nextGeneration_stored [of ?g2 g'] by simp
      then show ?thesis by simp
    next
      case False
      then have pl: "pipe_logic ?g2 = Inr g'"
        using assms ub AI by (simp add: update_def Let_def)
      have c: "continues mode bs" using False AI by (simp add: continues_def)
      have ?cont by (rule continue_step [OF ub pl _ _ _ c]) simp_all
      then show ?thesis by simp
    qed
  next
    case PLAYER
    show ?thesis
    proof (cases "continues mode bs")
      case False
      then have g': "g' = gameOver mode (g\<lparr>birds := bs\<rparr>)"
        using assms ub PLAYER by (cases bs) (auto simp: update_def Let_def continues_def)
      have l: "length bs = length (birds g)" using ub by (rule update_birds_kept(1))
      have "map score bs = map score (birds g)"
        using l update_birds_kept(2) [OF ub] by (intro nth_equalityI) simp_all
      then have ?over using g' False PLAYER by (simp add: gameOver_def Let_def)
      then show ?thesis by simp
    next
      case True
      then have pl: "pipe_logic (g\<lparr>birds := bs\<rparr>) = Inr g'"
        using assms ub PLAYER by (cases bs) (auto simp: update_def Let_def continues_def)
      have ?cont by (rule continue_step [OF ub pl _ _ _ True]) simp_all
      then show ?thesis by simp
    qed
  qed
qed

lemma update_generation:
  assumes "update mode a g = Inr g'"
  shows "generation g \<le> generation g'"
  using update_step [OF assms] by auto

lemma jump_kept:
  "pipes (jump mode a g) = pipes g \<and> generation (jump mode a g) = generation g \<and>
   length (birds (jump mode a g)) = length (birds g) \<and>
   map bird_x (birds (jump mode a g)) = map bird_x (birds g) \<and>
   map score (birds (jump mode a g)) = map score (birds g) \<and>
   map alive (birds (jump mode a g)) = map alive (birds g)"
  by (simp add: jump_def Let_def split: list.splits)


lemma continues_jump: "continues mode (birds (jump mode a g)) = continues mode (birds g)"
  by (simp add: jump_def Let_def continues_def living_def split: list.splits)

lemma hd_x_jump: "bird_x (hd (birds (jump mode a g))) = bird_x (hd (birds g))"
  by (simp add: jump_def Let_def split: list.splits)

lemma steps_generation: "steps mode g n g' \<Longrightarrow> generation g \<le> generation g'"
proof (induction rule: steps.induct)
  case (tick mode g n g1 a g2)
  then show ?case using update_generation [of mode a g1 g2] by simp
qed (simp_all add: jump_kept)

lemma steps_front:
  assumes "steps mode g1 n g'" "update mode a g = Inr g1"
  shows "steps mode g (Suc n) g'"
  using assms
proof (induction rule: steps.induct)
  case (start mode g1)
  then show ?case using steps.tick [OF steps.start] by simp
next
  case (tick mode g1 n g2 b g3)
  then show ?case using steps.tick by blast
next
  case (press mode g1 n g2 b)
  then show ?case using steps.press by blast
qed

lemma run_steps: "run mode a n g = Inr g' \<Longrightarrow> steps mode g n g'"
proof (induction n arbitrary: g)
  case 0
  then show ?case by (simp add: steps.start)
next
  case (Suc n)
  from Suc.prems obtain g1 where u: "update mode a g = Inr g1" and r: "run mode a n g1 = Inr g'"
    by (auto split: sum.splits)
  show ?case using steps_front [OF Suc.IH [OF r] u] .
qed

text \<open>
  Within a generation, while the game continues, the pipes of the state are the pipes of
  the start, each moved and flagged by its own passes, followed by the pipes spawned
  since; and the reference bird has not moved sideways.
\<close>

lemma steps_lineage:
  assumes "steps mode g n g'" "generation g' = generation g" "n = 0 \<or> continues mode (birds g')"
  shows "(\<exists>rest. pipes g' = List.map_filter (pipe_after (bird_x (hd (birds g))) n) (pipes g) @ rest) \<and>
         bird_x (hd (birds g')) = bird_x (hd (birds g))"
  using assms
proof (induction rule: steps.induct)
  case (start mode g)
  have "List.map_filter Some ps = ps" for ps :: "Pipe list"
    by (induction ps) (simp_all add: List.map_filter_simps)
  moreover have "pipe_after x 0 = Some" for x by (rule ext) simp
  ultimately show ?case by simp
next
  case (tick mode g n g1 a g2)
  let ?x0 = "bird_x (hd (birds g))"
  have le: "generation g \<le> generation g1" using tick.hyps(1) by (rule steps_generation)
  have c2: "continues mode (birds g2)" using tick.prems by simp
  from update_step [OF tick.hyps(2)] le tick.prems(1) c2
  obtain new where p2: "pipes g2 = List.map_filter (advance_pipe (bird_x (hd (birds g1)))) (pipes g1 @ new)"
    and gen: "generation g2 = generation g1" and c1: "continues mode (birds g1)"
    and x2: "bird_x (hd (birds g2)) = bird_x (hd (birds g1))"
    by auto
  from tick.IH gen tick.prems(1) c1 obtain rest where
    p1: "pipes g1 = List.map_filter (pipe_after ?x0 n) (pipes g) @ rest"
    and x1: "bird_x (hd (birds g1)) = ?x0" by auto
  have "pipes g2 = List.map_filter (pipe_after ?x0 (Suc n)) (pipes g) @
      List.map_filter (advance_pipe ?x0) (rest @ new)"
    unfolding p2 x1 p1 by (simp only: append_assoc map_filter_append map_filter_pipe_after)
  then have "\<exists>rest. pipes g2 = List.map_filter (pipe_after ?x0 (Suc n)) (pipes g) @ rest" ..
  then show ?case using x2 x1 by (simp del: pipe_after.simps)
next
  case (press mode g n g1 a)
  then show ?case by (simp add: jump_kept continues_jump hd_x_jump)
qed

text \<open>
  Claim C7. Let an execution lead from \<open>g\<close> to \<open>g1\<close> with \<open>n\<close> calls of \<open>update\<close> and any
  calls of \<open>jump\<close>, within one generation and with the game continuing at \<open>g1\<close>, and
  let one more call of \<open>update\<close> lead to \<open>g2\<close>; \<open>x0\<close> is the \<open>x\<close> of the first bird of \<open>g\<close>.
  \<^item> The reference has not moved, and the pipes of \<open>g1\<close> are the pipes of \<open>g\<close>, each after
    \<open>n\<close> passes of its own (moved left by \<open>n\<close> times the speed, dropped once beyond the
    left edge, flagged as below), in their order, followed by the pipes spawned since.
  \<^item> The call either ends the generation (the pipes are cleared), or ends the game
    (pipes, flags and scores are left as they are), or spawns no pipe or one unflagged
    pipe at the right edge, passes every pipe through \<open>advance_pipe\<close>, which keeps the
    flag set or sets it when the reference is strictly beyond the right edge of the
    moved pipe, and adds to the score of every bird alive at the end of the call
    exactly the number of pipes newly passed in this call, 1 for each, and nothing to
    the score of a dead bird. Nothing else in \<open>update\<close> or \<open>jump\<close> writes a flag.
  \<^item> Over any number \<open>k\<close> of passes a pipe is newly passed at most once, and never if
    it was flagged at the start; its flag is set at the end exactly when it was set at
    the start or the pipe was newly passed in one of the passes, and, after at least
    one pass, exactly when it was set at the start or the reference is strictly
    beyond the right edge of the pipe where it stands.
\<close>

theorem C7_passage_scoring:
  assumes "steps mode g n g1" "generation g1 = generation g"
    "n = 0 \<or> continues mode (birds g1)" "update mode a g1 = Inr g2"
  shows "(\<exists>rest. pipes g1 = List.map_filter (pipe_after (bird_x (hd (birds g))) n) (pipes g) @ rest) \<and>
    bird_x (hd (birds g1)) = bird_x (hd (birds g)) \<and>
    ((pipes g2 = [] \<and> generation g2 = generation g1 + 1) \<or>
     (pipes g2 = pipes g1 \<and> map score (birds g2) = map score (birds g1) \<and>
      gameState g2 = GAME_OVER \<and> generation g2 = generation g1) \<or>
     (\<exists>new. (new = [] \<or> (\<exists>t. new = [\<lparr>pipe_x = CANVAS_WIDTH, topHeight = t, passed = False\<rparr>])) \<and>
        pipes g2 = List.map_filter (advance_pipe (bird_x (hd (birds g)))) (pipes g1 @ new) \<and>
        length (birds g2) = length (birds g1) \<and>
        (\<forall>i < length (birds g1).
           score (birds g2 ! i) = score (birds g1 ! i) +
             (if alive (birds g2 ! i)
              then length (filter (newly_passed (bird_x (hd (birds g)))) (pipes g1 @ new)) else 0)) \<and>
        generation g2 = generation g1 \<and> continues mode (birds g2))) \<and>
    (advance_pipe x0 p = Some q \<longrightarrow>
       pipe_x q = pipe_x p - PIPE_SPEED \<and> topHeight q = topHeight p \<and> \<not> pipe_x q + PIPE_WIDTH < 0 \<and>
       passed q = (passed p \<or> x0 > pipe_x q + PIPE_WIDTH) \<and>
       passed q = (passed p \<or> newly_passed x0 p) \<and>
       (newly_passed x0 p \<longleftrightarrow> \<not> passed p \<and> passed q)) \<and>
    (advance_pipe x0 p = None \<longrightarrow> \<not> newly_passed x0 p) \<and>
    passages x1 k p' \<le> 1 \<and>
    (passed p' \<longrightarrow> passages x1 k p' = 0) \<and>
    (pipe_after x1 k p' = Some q' \<longrightarrow>
       passed q' = (passed p' \<or> passages x1 k p' = 1) \<and>
       pipe_x q' = pipe_x p' - real k * PIPE_SPEED \<and> topHeight q' = topHeight p' \<and>
       (0 < k \<longrightarrow> passed q' = (passed p' \<or> x1 > pipe_x q' + PIPE_WIDTH)))"
proof -
  have lin: "(\<exists>rest. pipes g1 = List.map_filter (pipe_after (bird_x (hd (birds g))) n) (pipes g) @ rest) \<and>
      bird_x (hd (birds g1)) = bird_x (hd (birds g))"
    using assms(1-3) by (rule steps_lineage)
  then have x: "bird_x (hd (birds g1)) = bird_x (hd (birds g))" by simp
  have st: "(pipes g2 = [] \<and> generation g2 = generation g1 + 1) \<or>
     (pipes g2 = pipes g1 \<and> map score (birds g2) = map score (birds g1) \<and>
      gameState g2 = GAME_OVER \<and> generation g2 = generation g1) \<or>
     (\<exists>new. (new = [] \<or> (\<exists>t. new = [\<lparr>pipe_x = CANVAS_WIDTH, topHeight = t, passed = False\<rparr>])) \<and>
        pipes g2 = List.map_filter (advance_pipe (bird_x (hd (birds g)))) (pipes g1 @ new) \<and>
        length (birds g2) = length (birds g1) \<and>
        (\<forall>i < length (birds g1).
           score (birds g2 ! i) = score (birds g1 ! i) +
             (if alive (birds g2 ! i)
              then length (filter (newly_passed (bird_x (hd (birds g)))) (pipes g1 @ new)) else 0)) \<and>
        generation g2 = generation g1 \<and> continues mode (birds g2))"
    using update_step [OF assms(4)] unfolding x by blast
  have adv: "advance_pipe x0 p = Some q \<longrightarrow>
       pipe_x q = pipe_x p - PIPE_SPEED \<and> topHeight q = topHeight p \<and> \<not> pipe_x q + PIPE_WIDTH < 0 \<and>
       passed q = (passed p \<or> x0 > pipe_x q + PIPE_WIDTH) \<and>
       passed q = (passed p \<or> newly_passed x0 p) \<and>
       (newly_passed x0 p \<longleftrightarrow> \<not> passed p \<and> passed q)"
    by (auto simp: advance_pipe_def newly_passed_def split: if_splits)
  have gone: "advance_pipe x0 p = None \<longrightarrow> \<not> newly_passed x0 p"
    by (simp add: advance_pipe_def newly_passed_def split: if_splits)
  have aft: "pipe_after x1 k p' = Some q' \<longrightarrow>
       passed q' = (passed p' \<or> passages x1 k p' = 1) \<and>
       pipe_x q' = pipe_x p' - real k * PIPE_SPEED \<and> topHeight q' = topHeight p' \<and>
       (0 < k \<longrightarrow> passed q' = (passed p' \<or> x1 > pipe_x q' + PIPE_WIDTH))"
    using pipe_after_passed [of x1 k p' q'] pipe_after_x [of x1 k p' q']
      pipe_after_first [of k x1 p' q'] by blast
  have le: "passages x1 k p' \<le> 1" by (rule passages_le_1)
  have fl: "passed p' \<longrightarrow> passages x1 k p' = 0" by (simp add: passages_flagged)
  show ?thesis
    by (rule conjI [OF lin [THEN conjunct1] conjI [OF x conjI [OF st conjI [OF adv
          conjI [OF gone conjI [OF le conjI [OF fl aft]]]]]]])
qed

text \<open>
  Calls 207 and 208 of the run. Call 207 moves the first pipe from 82 to 79, whose
  right edge 131 is then left of the reference 400 / 3 (rounded): the flag is set, the
  first bird, alive at the end of the call, goes from score 0 to 1, and the second
  bird, which dies in this call, stays at 0. Call 208 finds the flag set and adds
  nothing.
\<close>

theorem C7_passage_scoring_witness:
  "steps AI state206 (Suc 0) state207 \<and> generation state207 = generation state206 \<and>
   continues AI (birds state207) \<and> update AI False state207 = Inr state208 \<and>
   (\<exists>rest. pipes state207 =
      List.map_filter (pipe_after (bird_x (hd (birds state206))) (Suc 0)) (pipes state206) @ rest) \<and>
   map passed (pipes state206) = [False, False] \<and>
   map passed (pipes state207) = [True, False] \<and>
   map passed (pipes state208) = [True, False] \<and>
   map score (take 3 (birds state206)) = [0, 0, 0] \<and>
   map alive (take 3 (birds state207)) = [True, False, False] \<and>
   map score (take 3 (birds state207)) = [1, 0, 0] \<and>
   map score (take 3 (birds state208)) = [1, 0, 0] \<and>
   passages (bird_x (hd (birds state206))) 2 (pipes state206 ! 0) = 1"
proof -
  have s: "steps AI state206 (Suc 0) state207"
    using steps.tick [OF steps.start step_207] .
  have g: "generation state207 = generation state206"
    by (simp add: state206_def state207_def)
  have c: "continues AI (birds state207)"
    by (simp add: continues_def living_def state207_def)
  have c': "Suc 0 = 0 \<or> continues AI (birds state207)" using c by simp
  note t = C7_passage_scoring [OF s g c' step_208]
  have x: "bird_x (hd (birds state206)) = 4691249611844267 / 35184372088832"
    by (simp add: state206_def)
  have p: "passages (4691249611844267 / 35184372088832) 2 (pipes state206 ! 0) = 1"
    by (simp add: state206_def numeral_2_eq_2 advance_pipe_def newly_passed_def config_defs)
  show ?thesis
    using s g c step_208 t [THEN conjunct1] p
    by (simp add: x) (simp add: state206_def state207_def state208_def numeral_3_eq_3)
qed

end
